theory Spec2Isabelle
  imports Complex_Main "HOL-Library.Sublist"
begin

section \<open>Python strings\<close>

text \<open>
  A Python \<open>str\<close> is a sequence of Unicode code points, so a string is a list of
  code points (natural numbers) and \<open>len\<close> is \<open>length\<close>. \<open>py\<close> turns an ASCII
  literal into such a list.
\<close>

type_synonym pystr = "nat list"

definition py :: "string \<Rightarrow> pystr" where
  "py s = map of_char s"

text \<open>
  \<open>str.isspace\<close> on one code point, which is the test \<open>str.strip()\<close> applies at both
  ends: the code points whose bidirectional class is WS, B or S, or whose category is Zs.
\<close>

definition is_space :: "nat \<Rightarrow> bool" where
  "is_space c \<longleftrightarrow>
     (9 \<le> c \<and> c \<le> 13) \<or> (28 \<le> c \<and> c \<le> 32) \<or> c = 133 \<or> c = 160 \<or> c = 5760 \<or>
     (8192 \<le> c \<and> c \<le> 8202) \<or> c = 8232 \<or> c = 8233 \<or> c = 8239 \<or> c = 8287 \<or> c = 12288"

definition strip :: "pystr \<Rightarrow> pystr" where
  "strip s = rev (dropWhile is_space (rev (dropWhile is_space s)))"

section \<open>distill/distill\_judge\_with\_rm.py\<close>

subsection \<open>The two regular expressions\<close>

text \<open>
  \<open>re.sub(r'<\|.*?\|>', '', text)\<close>. The pattern is compiled without \<open>re.DOTALL\<close>, so
  \<open>.\<close> matches every code point but the newline (10). \<open>lazy_close\<close> is the part
  \<open>.*?\|>\<close> run at the position after an opening \<open><|\<close>: the lazy star first tries
  to close with \<open>|>\<close> and only then takes one more code point; it returns the text after
  the match, or \<open>None\<close> when the pattern does not match at this opening.
\<close>

fun lazy_close :: "pystr \<Rightarrow> pystr option" where
  "lazy_close [] = None"
| "lazy_close [c] = None"
| "lazy_close (c # d # cs) =
     (if c = 124 \<and> d = 62 then Some cs
      else if c = 10 then None
      else lazy_close (d # cs))"

text \<open>
  \<open>re.sub\<close> scans from the left; at each position it either removes the match that
  starts there and goes on after it, or copies one code point and moves on by one.
\<close>

function re_sub_templates :: "pystr \<Rightarrow> pystr" where
  "re_sub_templates [] = []"
| "re_sub_templates [c] = [c]"
| "re_sub_templates (c # d # cs) =
     (if c = 60 \<and> d = 124 then
        (case lazy_close cs of
           Some rest \<Rightarrow> re_sub_templates rest
         | None \<Rightarrow> c # re_sub_templates (d # cs))
      else c # re_sub_templates (d # cs))"
  by pat_completeness auto
termination
proof (relation "measure length")
  have shorter: "lazy_close xs = Some r \<Longrightarrow> length r < length xs" for xs r
    by (induction xs rule: lazy_close.induct) (auto split: if_splits)
  show "(rest, c # d # cs) \<in> measure length" if "lazy_close cs = Some rest"
    for c d :: nat and cs rest :: pystr
    using shorter [OF that] by simp
qed simp_all

definition remove_templates :: "pystr \<Rightarrow> pystr" where
  "remove_templates text = strip (re_sub_templates text)"

text \<open>\<open>re.search(r'<\|.*?\|>', t) is not None\<close>: the text still holds a marker.\<close>

fun has_template :: "pystr \<Rightarrow> bool" where
  "has_template [] = False"
| "has_template [c] = False"
| "has_template (c # d # cs) =
     ((c = 60 \<and> d = 124 \<and> lazy_close cs \<noteq> None) \<or> has_template (d # cs))"

text \<open>
  \<open>re.search(r'<\|start_header_id\|>user<\|end_header_id\|>\n\n(.*?)<\|eot_id\|>', prompt,
  re.DOTALL)\<close>. With \<open>re.DOTALL\<close> the dot matches every code point, so the lazy group
  ends at the first \<open><|eot_id|>\<close> after the opening marker. \<open>until_eot\<close> is the part
  \<open>(.*?)<\|eot_id\|>\<close> and returns group 1; \<open>re_search_user\<close> tries the positions of
  the prompt from the left and returns group 1 of the first match.
\<close>

definition USER_OPEN :: pystr where
  "USER_OPEN = py ''<|start_header_id|>user<|end_header_id|>\<newline>\<newline>''"

definition EOT :: pystr where
  "EOT = py ''<|eot_id|>''"

fun until_eot :: "pystr \<Rightarrow> pystr option" where
  "until_eot [] = None"
| "until_eot (c # cs) =
     (if prefix EOT (c # cs) then Some []
      else map_option ((#) c) (until_eot cs))"

fun re_search_user :: "pystr \<Rightarrow> pystr option" where
  "re_search_user [] = None"
| "re_search_user (c # cs) =
     (if prefix USER_OPEN (c # cs) then
        (case until_eot (drop (length USER_OPEN) (c # cs)) of
           Some g \<Rightarrow> Some g
         | None \<Rightarrow> re_search_user cs)
      else re_search_user cs)"

subsection \<open>Parsed JSON\<close>

text \<open>
  What \<open>json.loads\<close> returns: \<open>None\<close>, a bool, an int, a float (the parser also reads
  \<open>NaN\<close>, \<open>Infinity\<close> and \<open>-Infinity\<close>), a str, a list or a dict. \<open>json.loads\<close>
  itself is library code and is a parameter of \<open>process_file\<close> below: it returns
  a value (\<open>Inr\<close>) or raises (\<open>Inl\<close>), \<open>json.JSONDecodeError\<close> for text that is not
  JSON, and on some JSON texts another exception (\<open>ValueError\<close> for an integer literal
  beyond the digit limit, \<open>RecursionError\<close> for deep nesting).
\<close>

datatype pyfloat = Finite real | PosInf | NegInf | NaN

datatype json =
    JNull
  | JBool bool
  | JInt int
  | JFloat pyfloat
  | JStr pystr
  | JArr "json list"
  | JObj "pystr \<Rightarrow> json option"

datatype error =
    AttributeError
  | TypeError
  | IndexError
  | ZeroDivisionError
  | JSONDecodeError
  | ValueError
  | RecursionError
  | UnicodeEncodeError
  | FileNotFoundError

text \<open>\<open>data.get(key, default)\<close> on a dict.\<close>

definition dict_get :: "(pystr \<Rightarrow> json option) \<Rightarrow> pystr \<Rightarrow> json \<Rightarrow> json" where
  "dict_get d key dflt = (case d key of None \<Rightarrow> dflt | Some v \<Rightarrow> v)"

text \<open>
  \<open>re.search\<close> and \<open>re.sub\<close> raise \<open>TypeError\<close> (expected string or bytes-like
  object) when the text is not a \<open>str\<close>.
\<close>

fun expect_str :: "json \<Rightarrow> error + pystr" where
  "expect_str (JStr s) = Inr s"
| "expect_str _ = Inl TypeError"

text \<open>
  Python's \<open>v == k\<close> for an int \<open>k\<close>: numbers compare by value, \<open>True\<close> and
  \<open>False\<close> are the ints 1 and 0, everything else is unequal.
\<close>

fun py_eq_int :: "json \<Rightarrow> int \<Rightarrow> bool" where
  "py_eq_int (JInt n) k = (n = k)"
| "py_eq_int (JFloat (Finite r)) k = (r = of_int k)"
| "py_eq_int (JBool b) k = ((if b then 1 else 0) = k)"
| "py_eq_int _ k = False"

subsection \<open>The body of the loop of \<open>process_file\<close>\<close>

text \<open>
  The dict \<open>output_entry\<close>. The field \<open>output_label\<close> is its key \<open>"output"\<close>
  (that word is reserved in theory text), which the source sets to \<open>output_label\<close>.
\<close>

record output_entry =
  instruction :: pystr
  input :: pystr
  system :: pystr
  output_label :: pystr

text \<open>The f-string of the \<open>instruction\<close> field, cut at its three holes.\<close>

definition template_head :: pystr where
  \<open>template_head = py
    (''Select the Output (a) or Output (b) that is better for the given '' @
     ''instruction. The two outputs are generated by two different AI chatbots '' @
     ''respectively.\<newline>'' @
     ''\<newline>'' @
     ''Here are some rules of the evaluation:\<newline>'' @
     ''(1) You should prioritize evaluating whether the output '' @
     ''honestly/precisely/closely executes the instruction, then consider its '' @
     ''helpfulness, accuracy, level of detail, harmlessness, etc.\<newline>'' @
     ''(2) Outputs should NOT contain more/less than what the instruction asks '' @
     ''for, as such outputs do NOT precisely execute the instruction.\<newline>'' @
     ''(3) You should avoid any potential bias and your judgment should be as '' @
     ''objective as possible. For example, the order in which the outputs were '' @
     ''presented should NOT affect your judgment, as Output (a) and Output (b) are '' @
     ''**equally likely** to be the better.\<newline>'' @
     ''\<newline>'' @
     ''Do NOT provide any explanation for your choice.\<newline>'' @
     ''Do NOT say both / neither are good.\<newline>'' @
     ''You should answer using ONLY "Output (a)" or "Output (b)". Do NOT output '' @
     ''any other words.\<newline>'' @
     ''\<newline>'' @
     ''# Instruction:\<newline>'')\<close>

definition template_before_a :: pystr where
  \<open>template_before_a = py
    (''\<newline>'' @
     ''\<newline>'' @
     ''# Output (a):\<newline>'')\<close>

definition template_before_b :: pystr where
  \<open>template_before_b = py
    (''\<newline>'' @
     ''\<newline>'' @
     ''# Output (b):\<newline>'')\<close>

definition template_tail :: pystr where
  \<open>template_tail = py
    (''\<newline>'' @
     ''\<newline>'' @
     ''# Which is better, Output (a) or Output (b)? Your response should be either '' @
     ''"Output (a)" or "Output (b)":'')\<close>

definition render :: "pystr \<Rightarrow> pystr \<Rightarrow> pystr \<Rightarrow> pystr" where
  "render instr a_text b_text =
     template_head @ instr @ template_before_a @ a_text @ template_before_b @ b_text
       @ template_tail"

definition SYSTEM :: pystr where
  "SYSTEM = py
    (''You are a helpful assistant in evaluating the quality of the outputs for a '' @
     ''given instruction. Your goal is to select the best output for the given '' @
     ''instruction.'')"

definition extract_instruction :: "pystr \<Rightarrow> pystr" where
  "extract_instruction prompt =
     (case re_search_user prompt of
        Some g \<Rightarrow> remove_templates g
      | None \<Rightarrow> [])"

definition correct_pair :: "json \<Rightarrow> pystr \<Rightarrow> pystr \<Rightarrow> pystr \<times> pystr" where
  "correct_pair results_flag chosen_text rejected_text =
     (if py_eq_int results_flag 0 then (rejected_text, chosen_text)
      else (chosen_text, rejected_text))"

definition assign_positions :: "bool \<Rightarrow> pystr \<Rightarrow> pystr \<Rightarrow> pystr \<times> pystr \<times> pystr" where
  "assign_positions tog chosen_text rejected_text =
     (if tog then (py ''Output (a)'', chosen_text, rejected_text)
      else (py ''Output (b)'', rejected_text, chosen_text))"

text \<open>
  One pass through the loop body for a parsed line \<open>data\<close>, with the current toggle.
  \<open>data.get\<close> exists on a dict only (\<open>AttributeError\<close> otherwise).
\<close>

definition process_record :: "bool \<Rightarrow> json \<Rightarrow> error + output_entry" where
  "process_record tog data =
     (case data of
        JObj d \<Rightarrow>
          (case expect_str (dict_get d (py ''prompt'') (JStr [])) of
             Inl e \<Rightarrow> Inl e
           | Inr prompt \<Rightarrow>
          (case expect_str (dict_get d (py ''chosen'') (JStr [])) of
             Inl e \<Rightarrow> Inl e
           | Inr chosen \<Rightarrow>
          (case expect_str (dict_get d (py ''rejected'') (JStr [])) of
             Inl e \<Rightarrow> Inl e
           | Inr rejected \<Rightarrow>
              (let instr = extract_instruction prompt;
                   (chosen_text, rejected_text) =
                      correct_pair (dict_get d (py ''results'') (JInt 1))
                        (remove_templates chosen) (remove_templates rejected);
                   (label, a_text, b_text) =
                      assign_positions tog chosen_text rejected_text
               in Inr \<lparr>instruction = render instr a_text b_text, input = [],
                        system = SYSTEM, output_label = label\<rparr>))))
      | _ \<Rightarrow> Inl AttributeError)"

subsection \<open>\<open>process_file\<close>\<close>

text \<open>
  The state of a run: the records collected so far, the toggle, what \<open>print\<close> has
  written (the line number and the stripped line of every line that did not parse), and the
  lines written to the output file. The input is the list of lines that iterating over the
  input file yields. Only \<open>json.JSONDecodeError\<close> is caught; any other exception leaves
  the loop and the function, before the output file is opened. (Standard output is taken
  to encode every printed code point, as a UTF-8 terminal does.)
\<close>

record run_state =
  output_data :: "output_entry list"
  toggle :: bool
  printed :: "(nat \<times> pystr) list"
  outfile :: "pystr list"

fun process_lines ::
  "(pystr \<Rightarrow> error + json) \<Rightarrow> (nat \<times> pystr) list \<Rightarrow> run_state \<Rightarrow> error + run_state" where
  "process_lines loads [] st = Inr st"
| "process_lines loads ((line_number, raw) # rest) st =
     (let line = strip raw in
      if line = [] then process_lines loads rest st
      else
        (case loads line of
           Inl e \<Rightarrow>
             if e = JSONDecodeError then
               process_lines loads rest (st\<lparr>printed := printed st @ [(line_number, line)]\<rparr>)
             else Inl e
         | Inr data \<Rightarrow>
             (case process_record (toggle st) data of
                Inl e \<Rightarrow> Inl e
              | Inr output_entry \<Rightarrow>
                  process_lines loads rest
                    (st\<lparr>output_data := output_data st @ [output_entry],
                        toggle := \<not> toggle st\<rparr>))))"

text \<open>
  \<open>json.dumps(entry, ensure_ascii=False)\<close> for the dict of four strings: the keys in
  insertion order, the separators \<open>", "\<close> and \<open>": "\<close>, and each string between double
  quotes with the double quote (34), the backslash (92) and the control characters below 32
  escaped (\<open>\n\<close>, \<open>\r\<close>, \<open>\t\<close>, \<open>\b\<close>, \<open>\f\<close> by their letter, the others as
  \<open>\u00XX\<close> in lower-case hexadecimal); every other code point stands for itself.
\<close>

definition hex_digit :: "nat \<Rightarrow> nat" where
  "hex_digit d = (if d < 10 then 48 + d else 87 + d)"

definition escape_char :: "nat \<Rightarrow> pystr" where
  "escape_char c =
     (if c = 34 then [92, 34]
      else if c = 92 then [92, 92]
      else if c = 10 then [92, 110]
      else if c = 13 then [92, 114]
      else if c = 9 then [92, 116]
      else if c = 8 then [92, 98]
      else if c = 12 then [92, 102]
      else if c < 32 then [92, 117, 48, 48, hex_digit (c div 16), hex_digit (c mod 16)]
      else [c])"

definition dumps_str :: "pystr \<Rightarrow> pystr" where
  "dumps_str s = [34] @ concat (map escape_char s) @ [34]"

definition json_dumps :: "output_entry \<Rightarrow> pystr" where
  \<open>json_dumps entry =
     py ''{"instruction": '' @ dumps_str (instruction entry)
       @ py '', "input": '' @ dumps_str (input entry)
       @ py '', "system": '' @ dumps_str (system entry)
       @ py '', "output": '' @ dumps_str (output_label entry) @ py ''}''\<close>

text \<open>
  The output file is opened with \<open>encoding='utf-8'\<close>, and \<open>outfile.write\<close> encodes its
  text at once: a lone surrogate (a code point from D800 to DFFF, which \<open>json.loads\<close>
  produces from an escape such as \<open>\ud800\<close>) raises \<open>UnicodeEncodeError\<close>; the lines
  written before it stay in the file. (A Python string holds code points below 110000 only.)
\<close>

definition is_surrogate :: "nat \<Rightarrow> bool" where
  "is_surrogate c \<longleftrightarrow> 55296 \<le> c \<and> c \<le> 57343"

fun write_lines :: "output_entry list \<Rightarrow> pystr list \<Rightarrow> error + pystr list" where
  "write_lines [] written = Inr written"
| "write_lines (entry # rest) written =
     (let json_line = json_dumps entry in
      if list_ex is_surrogate (json_line @ [10]) then Inl UnicodeEncodeError
      else write_lines rest (written @ [json_line @ [10]]))"

definition process_file :: "(pystr \<Rightarrow> error + json) \<Rightarrow> pystr list \<Rightarrow> error + run_state" where
  "process_file loads lines =
     (case process_lines loads (enumerate 1 lines)
             \<lparr>output_data = [], toggle = True, printed = [], outfile = []\<rparr> of
        Inl e \<Rightarrow> Inl e
      | Inr st \<Rightarrow>
          (case write_lines (output_data st) [] of
             Inl e \<Rightarrow> Inl e
           | Inr written \<Rightarrow> Inr (st\<lparr>outfile := written\<rparr>)))"

section \<open>eval/rewardbench/\_\_main\_\_.py\<close>

text \<open>
  The model starts at the inference loop of \<open>main\<close>. The reward pipeline is library code:
  its two answers for each batch are the input. An answer is either a list of dicts with a
  \<open>score\<close> entry or an array of scores; the score type is any type with a comparison
  (Python floats, whose \<open>>\<close> is not a linear order because of NaN, included).
\<close>

datatype 'a rewards = ScoreDicts "'a list" | ScoreArray "'a list"

text \<open>
  Lines 197 to 203. \<open>rewards_chosen[0]\<close> raises \<open>IndexError\<close> on an empty answer; the
  shape of \<open>rewards_chosen\<close> decides how both answers are read, and an answer of the other
  shape for \<open>rewards_rejected\<close> fails (indexing an array element by \<open>"score"\<close>, unless
  the array is empty, or \<open>.cpu()\<close> on a list).
\<close>

fun batch_scores :: "'a rewards \<Rightarrow> 'a rewards \<Rightarrow> error + ('a list \<times> 'a list)" where
  "batch_scores (ScoreDicts []) rewards_rejected = Inl IndexError"
| "batch_scores (ScoreArray []) rewards_rejected = Inl IndexError"
| "batch_scores (ScoreDicts cs) (ScoreDicts rs) = Inr (cs, rs)"
| "batch_scores (ScoreDicts cs) (ScoreArray []) = Inr (cs, [])"
| "batch_scores (ScoreDicts cs) (ScoreArray rs) = Inl IndexError"
| "batch_scores (ScoreArray cs) (ScoreArray rs) = Inr (cs, rs)"
| "batch_scores (ScoreArray cs) (ScoreDicts rs) = Inl AttributeError"

record 'a inference =
  results :: "nat list"
  scores_chosen :: "'a list"
  scores_rejected :: "'a list"

fun run_inference ::
  "('a::ord rewards \<times> 'a rewards) list \<Rightarrow> 'a inference \<Rightarrow> error + 'a inference" where
  "run_inference [] st = Inr st"
| "run_inference ((rewards_chosen, rewards_rejected) # batches) st =
     (case batch_scores rewards_chosen rewards_rejected of
        Inl e \<Rightarrow> Inl e
      | Inr (score_chosen_batch, score_rejected_batch) \<Rightarrow>
          run_inference batches
            (st\<lparr>results := results st
                   @ map (\<lambda>(chosen, rejected). if chosen > rejected then 1 else 0)
                       (zip score_chosen_batch score_rejected_batch),
                scores_chosen := scores_chosen st @ score_chosen_batch,
                scores_rejected := scores_rejected st @ score_rejected_batch\<rparr>))"

text \<open>
  The command line arguments that the rest of \<open>main\<close> reads, and the two files it writes:
  the summary, and with \<open>--save_all\<close> the file of all scores, a list of lines, each the
  dict \<open>{"chosen": ..., "rejected": ...}\<close> that \<open>json.dumps\<close> receives.
\<close>

record args =
  arg_model :: pystr
  arg_tokenizer :: "pystr option"
  arg_chat_template :: "pystr option"
  arg_output_dir :: pystr
  arg_save_all :: bool

record summary =
  accuracy :: real
  num_prompts :: nat
  model :: pystr
  tokenizer :: pystr
  chat_template :: "pystr option"

record 'a score_line =
  chosen :: "'a list"
  rejected :: "'a list"

record 'a written =
  summary_file :: "pystr \<times> summary"
  all_file :: "(pystr \<times> 'a score_line list) option"

text \<open>
  \<open>os.path.dirname\<close> (of \<open>posixpath\<close>): the path up to its last slash, without
  trailing slashes unless it consists of slashes only; empty when the path has no slash,
  and then \<open>os.makedirs\<close> raises \<open>FileNotFoundError\<close>.
\<close>

definition dirname :: "pystr \<Rightarrow> pystr" where
  "dirname p =
     (let head = rev (dropWhile (\<lambda>c. c \<noteq> 47) (rev p)) in
      if head \<noteq> [] \<and> \<not> list_all (\<lambda>c. c = 47) head
      then rev (dropWhile (\<lambda>c. c = 47) (rev head))
      else head)"

text \<open>
  \<open>sum(results) / len(results)\<close> is Python's true division of two ints: it raises
  \<open>ZeroDivisionError\<close> for an empty list, before any file is opened, and otherwise returns
  the float nearest to the exact quotient. The model keeps the exact quotient. The summary
  is written before the directory of the second file is made; the two paths have the same
  directory part.
\<close>

definition main :: "args \<Rightarrow> ('a::ord rewards \<times> 'a rewards) list \<Rightarrow> error + 'a written" where
  "main a batches =
     (case run_inference batches \<lparr>results = [], scores_chosen = [], scores_rejected = []\<rparr> of
        Inl e \<Rightarrow> Inl e
      | Inr st \<Rightarrow>
          if length (results st) = 0 then Inl ZeroDivisionError
          else
            (let acc = real (sum_list (results st)) / real (length (results st));
                 tokenizer_path =
                   (case arg_tokenizer a of
                      None \<Rightarrow> arg_model a
                    | Some t \<Rightarrow> if t = [] then arg_model a else t);
                 output_path = arg_output_dir a @ arg_model a @ py ''.json'';
                 summary =
                   \<lparr>accuracy = acc, num_prompts = length (results st), model = arg_model a,
                    tokenizer = tokenizer_path, chat_template = arg_chat_template a\<rparr>
             in if dirname output_path = [] then Inl FileNotFoundError
                else if arg_save_all a then
                  (let all_path = arg_output_dir a @ arg_model a @ py ''_all.jsonl'' in
                   if dirname all_path = [] then Inl FileNotFoundError
                   else Inr
                     \<lparr>summary_file = (output_path, summary),
                      all_file =
                        Some (all_path,
                          map (\<lambda>(chosen, rejected).
                                 \<lparr>chosen = scores_chosen st, rejected = scores_rejected st\<rparr>)
                            (zip (scores_chosen st) (scores_rejected st)))\<rparr>)
                else Inr \<lparr>summary_file = (output_path, summary), all_file = None\<rparr>))"

section \<open>Vocabulary of the properties\<close>

text \<open>
  The lines the reformatter is written for, the PreferenceRecord of the data model: a dict
  in which each of \<open>prompt\<close>, \<open>chosen\<close> and \<open>rejected\<close> is absent or a string
  (\<open>results\<close> may hold anything). \<open>text_of\<close> is the text that \<open>data.get(key, '')\<close>
  gives for such a field.
\<close>

definition is_str_or_absent :: "json option \<Rightarrow> bool" where
  "is_str_or_absent v = (case v of None \<Rightarrow> True | Some (JStr s) \<Rightarrow> True | Some _ \<Rightarrow> False)"

definition is_preference_record :: "json \<Rightarrow> bool" where
  "is_preference_record data =
     (case data of
        JObj d \<Rightarrow>
          is_str_or_absent (d (py ''prompt'')) \<and> is_str_or_absent (d (py ''chosen''))
            \<and> is_str_or_absent (d (py ''rejected''))
      | _ \<Rightarrow> False)"

definition text_of :: "json option \<Rightarrow> pystr" where
  "text_of v = (case v of Some (JStr s) \<Rightarrow> s | _ \<Rightarrow> [])"

text \<open>
  A text is clean when it holds no lone surrogate, so that it can be written to the output
  file. A line is blank when nothing is left of it after stripping; it is malformed when it
  is not blank and \<open>json.loads\<close> raises \<open>JSONDecodeError\<close>; it is well-formed when it
  is not blank and parses to a record (as above) whose three texts are clean.
\<close>

definition clean :: "pystr \<Rightarrow> bool" where
  "clean s = list_all (\<lambda>c. \<not> is_surrogate c) s"

definition has_clean_texts :: "json \<Rightarrow> bool" where
  "has_clean_texts data =
     (case data of
        JObj d \<Rightarrow>
          clean (text_of (d (py ''prompt''))) \<and> clean (text_of (d (py ''chosen'')))
            \<and> clean (text_of (d (py ''rejected'')))
      | _ \<Rightarrow> False)"

definition blank_line :: "pystr \<Rightarrow> bool" where
  "blank_line raw \<longleftrightarrow> strip raw = []"

definition malformed_line :: "(pystr \<Rightarrow> error + json) \<Rightarrow> pystr \<Rightarrow> bool" where
  "malformed_line loads raw \<longleftrightarrow> strip raw \<noteq> [] \<and> loads (strip raw) = Inl JSONDecodeError"

definition well_formed_line :: "(pystr \<Rightarrow> error + json) \<Rightarrow> pystr \<Rightarrow> bool" where
  "well_formed_line loads raw \<longleftrightarrow>
     strip raw \<noteq> [] \<and>
     (case loads (strip raw) of
        Inr data \<Rightarrow> is_preference_record data \<and> has_clean_texts data
      | Inl e \<Rightarrow> False)"

text \<open>
  The text of the \<open>instruction\<close> field with its three holes filled: the instruction after
  the rubric, the text of position a after the line \<open># Output (a):\<close>, the text of
  position b after the line \<open># Output (b):\<close>.
\<close>

abbreviation placed :: "pystr \<Rightarrow> pystr \<Rightarrow> pystr \<Rightarrow> pystr" where
  "placed instr a_text b_text \<equiv>
     template_head @ instr @ py ''\<newline>\<newline># Output (a):\<newline>'' @ a_text
       @ py ''\<newline>\<newline># Output (b):\<newline>'' @ b_text @ template_tail"

text \<open>
  The scores an answer of the pipeline carries, and the pairs that the loop of \<open>main\<close>
  compares: within each batch the chosen and rejected scores are matched by their index in
  the batch, as \<open>zip\<close> does.
\<close>

fun scores_of :: "'a rewards \<Rightarrow> 'a list" where
  "scores_of (ScoreDicts xs) = xs"
| "scores_of (ScoreArray xs) = xs"

definition scored_pairs :: "('a rewards \<times> 'a rewards) list \<Rightarrow> ('a \<times> 'a) list" where
  "scored_pairs batches =
     concat (map (\<lambda>(rewards_chosen, rewards_rejected).
                    zip (scores_of rewards_chosen) (scores_of rewards_rejected)) batches)"

subsection \<open>Example inputs\<close>

text \<open>
  The record of the two examples of the specification, with the \<open>results\<close> flag as a
  parameter, a record whose prompt holds two spans, and a stand-in for \<open>json.loads\<close>
  that knows seven lines: three that stand for these records (the first with flag 1 and
  flag 0), the empty dict, a list, and two dicts whose \<open>chosen\<close> is a number. Every
  other line fails to parse.
\<close>

definition haiku_prompt :: pystr where
  "haiku_prompt = py ''...<|start_header_id|>user<|end_header_id|>\<newline>\<newline>Write a haiku.<|eot_id|>''"

definition haiku_record :: "int \<Rightarrow> json" where
  "haiku_record flag = JObj
     [py ''prompt'' \<mapsto> JStr haiku_prompt,
      py ''chosen'' \<mapsto> JStr (py ''<|x|>A<|/x|>''),
      py ''rejected'' \<mapsto> JStr (py ''<|x|>B<|/x|>''),
      py ''results'' \<mapsto> JInt flag]"

definition two_span_record :: json where
  "two_span_record = JObj
     [py ''prompt'' \<mapsto>
        JStr (py ''...'' @ USER_OPEN @ py '' A '' @ EOT @ USER_OPEN @ py ''B'' @ EOT)]"

definition example_loads :: "pystr \<Rightarrow> error + json" where
  \<open>example_loads line =
     (if line = py ''{"id": 1}'' then Inr (haiku_record 1)
      else if line = py ''{"id": 0}'' then Inr (haiku_record 0)
      else if line = py ''{"id": 2}'' then Inr two_span_record
      else if line = py ''{}'' then Inr (JObj Map.empty)
      else if line = py ''[1, 2]'' then Inr (JArr [JInt 1, JInt 2])
      else if line = py ''{"chosen": 5}'' then Inr (JObj [py ''chosen'' \<mapsto> JInt 5])
      else if line = py ''{"prompt": "Write a haiku.", "chosen": 5}'' then
        Inr (JObj [py ''prompt'' \<mapsto> JStr (py ''Write a haiku.''), py ''chosen'' \<mapsto> JInt 5])
      else Inl JSONDecodeError)\<close>

definition example_lines :: "pystr list" where
  \<open>example_lines =
     [py ''{"id": 1}\<newline>'', py ''  {bad\<newline>'', py ''\<newline>'', py ''{"id": 0}\<newline>'']\<close>

text \<open>
  The benchmark example of the specification as one batch of two pairs, run with
  \<open>--save_all\<close>.
\<close>

definition example_args :: args where
  "example_args =
     \<lparr>arg_model = py ''rm'', arg_tokenizer = None, arg_chat_template = None,
      arg_output_dir = py ''results/'', arg_save_all = True\<rparr>"

definition example_batches :: "(real rewards \<times> real rewards) list" where
  "example_batches = [(ScoreArray [0.9, 0.1], ScoreArray [0.2, 0.8])]"

section \<open>Properties of the template stripper\<close>

lemma lazy_close_length: "lazy_close xs = Some r \<Longrightarrow> length r < length xs"
  by (induction xs rule: lazy_close.induct) (auto split: if_splits)

lemma strip_Nil [simp]: "strip [] = []"
  by (simp add: strip_def)

lemma dropWhile_last:
  "dropWhile P xs \<noteq> [] \<Longrightarrow> last (dropWhile P xs) = last xs"
  by (induction xs) (auto split: if_splits)

lemma dropWhile_fixed: "xs = [] \<or> \<not> P (hd xs) \<Longrightarrow> dropWhile P xs = xs"
  by (cases xs) auto

lemma lstrip_rev_rstrip:
  "dropWhile is_space (rev (dropWhile is_space (rev (dropWhile is_space s))))
     = rev (dropWhile is_space (rev (dropWhile is_space s)))"
proof -
  let ?y = "dropWhile is_space s"
  let ?z = "dropWhile is_space (rev ?y)"
  show ?thesis
  proof (cases "?z = []")
    case True
    then show ?thesis by (simp only: rev.simps dropWhile.simps)
  next
    case False
    then have "last ?z = last (rev ?y)"
      by (rule dropWhile_last)
    moreover have ny: "?y \<noteq> []"
    proof
      assume e: "?y = []"
      have "?z = []"
        by (simp only: e rev.simps dropWhile.simps)
      with False show False
        by contradiction
    qed
    ultimately have "hd (rev ?z) = hd ?y"
      using False by (simp add: hd_rev last_rev)
    moreover from ny have "\<not> is_space (hd ?y)"
      by (rule hd_dropWhile)
    ultimately show ?thesis
      using False by (intro dropWhile_fixed) simp
  qed
qed

lemma strip_idem: "strip (strip s) = strip s"
  unfolding strip_def by (simp add: lstrip_rev_rstrip)

lemma length_strip: "length (strip s) \<le> length s"
proof -
  have "length (dropWhile is_space (rev (dropWhile is_space s))) \<le> length (dropWhile is_space s)"
    using length_dropWhile_le [of is_space "rev (dropWhile is_space s)"] by simp
  also have "\<dots> \<le> length s"
    by (rule length_dropWhile_le)
  finally show ?thesis
    by (simp add: strip_def)
qed

lemma re_sub_no_template: "\<not> has_template t \<Longrightarrow> re_sub_templates t = t"
  by (induction t rule: re_sub_templates.induct) (auto split: option.splits)

lemma length_re_sub: "length (re_sub_templates t) \<le> length t"
proof (induction t rule: re_sub_templates.induct)
  case (3 c d cs)
  show ?case
  proof (cases "c = 60 \<and> d = 124")
    case True
    show ?thesis
    proof (cases "lazy_close cs")
      case None
      with True "3.IH" show ?thesis by simp
    next
      case (Some rest)
      with True "3.IH" have "length (re_sub_templates rest) \<le> length rest"
        by simp
      with True Some lazy_close_length [of cs rest] show ?thesis
        by simp
    qed
  next
    case False
    with "3.IH" show ?thesis by auto
  qed
qed simp_all

lemma re_sub_has_template: "has_template t \<Longrightarrow> length (re_sub_templates t) < length t"
proof (induction t rule: re_sub_templates.induct)
  case (3 c d cs)
  show ?case
  proof (cases "c = 60 \<and> d = 124 \<and> lazy_close cs \<noteq> None")
    case True
    then obtain rest where r: "lazy_close cs = Some rest"
      by auto
    then have "length (re_sub_templates rest) < length cs"
      using length_re_sub [of rest] lazy_close_length [of cs rest] by simp
    with True r show ?thesis
      by simp
  next
    case False
    with "3.prems" have "has_template (d # cs)"
      by auto
    with False "3.IH" show ?thesis
      by (auto split: option.splits)
  qed
qed simp_all

text \<open>
  What \<open>has_template\<close> means, in terms of the text alone: somewhere an opening \<open><|\<close> is
  followed, with no newline in between, by a closing \<open>|>\<close>.
\<close>

lemma lazy_close_iff:
  "lazy_close cs \<noteq> None \<longleftrightarrow>
     (\<exists>body post. cs = body @ [124, 62] @ post \<and> 10 \<notin> set body)"
proof
  show "lazy_close cs \<noteq> None \<Longrightarrow> \<exists>body post. cs = body @ [124, 62] @ post \<and> 10 \<notin> set body"
  proof (induction cs rule: lazy_close.induct)
    case (3 c d cs)
    show ?case
    proof (cases "c = 124 \<and> d = 62")
      case True
      then have "c # d # cs = [] @ [124, 62] @ cs \<and> 10 \<notin> set ([]::pystr)"
        by simp
      then show ?thesis by blast
    next
      case False
      with "3.prems" have c: "c \<noteq> 10" and "lazy_close (d # cs) \<noteq> None"
        by (auto split: if_splits)
      with False "3.IH" obtain body post where "d # cs = body @ [124, 62] @ post" "10 \<notin> set body"
        by auto
      with c have "c # d # cs = (c # body) @ [124, 62] @ post \<and> 10 \<notin> set (c # body)"
        by simp
      then show ?thesis by blast
    qed
  qed simp_all
next
  assume "\<exists>body post. cs = body @ [124, 62] @ post \<and> 10 \<notin> set body"
  then obtain body post where "cs = body @ [124, 62] @ post" "10 \<notin> set body"
    by blast
  then show "lazy_close cs \<noteq> None"
  proof (induction body arbitrary: cs)
    case Nil
    then show ?case by simp
  next
    case (Cons b bs)
    then have "lazy_close (bs @ [124, 62] @ post) \<noteq> None"
      by simp
    moreover obtain d ds where "bs @ [124, 62] @ post = d # ds"
      by (cases bs) auto
    ultimately show ?case
      using Cons.prems by auto
  qed
qed

lemma has_template_iff:
  "has_template t \<longleftrightarrow>
     (\<exists>pre body post. t = pre @ [60, 124] @ body @ [124, 62] @ post \<and> 10 \<notin> set body)"
proof
  show "has_template t \<Longrightarrow>
    \<exists>pre body post. t = pre @ [60, 124] @ body @ [124, 62] @ post \<and> 10 \<notin> set body"
  proof (induction t rule: has_template.induct)
    case (3 c d cs)
    show ?case
    proof (cases "c = 60 \<and> d = 124 \<and> lazy_close cs \<noteq> None")
      case True
      then obtain body post where "cs = body @ [124, 62] @ post" "10 \<notin> set body"
        using lazy_close_iff [of cs] by blast
      with True have "c # d # cs = [] @ [60, 124] @ body @ [124, 62] @ post \<and> 10 \<notin> set body"
        by simp
      then show ?thesis by blast
    next
      case False
      with "3.prems" "3.IH" obtain pre body post
        where "d # cs = pre @ [60, 124] @ body @ [124, 62] @ post" "10 \<notin> set body"
        by auto
      then have "c # d # cs = (c # pre) @ [60, 124] @ body @ [124, 62] @ post \<and> 10 \<notin> set body"
        by simp
      then show ?thesis by blast
    qed
  qed simp_all
next
  assume "\<exists>pre body post. t = pre @ [60, 124] @ body @ [124, 62] @ post \<and> 10 \<notin> set body"
  then obtain pre body post
    where t: "t = pre @ [60, 124] @ body @ [124, 62] @ post" and nl: "10 \<notin> set body"
    by blast
  from nl have lc: "lazy_close (body @ [124, 62] @ post) \<noteq> None"
    using lazy_close_iff by blast
  show "has_template t"
    unfolding t
  proof (induction pre)
    case Nil
    from lc show ?case by simp
  next
    case (Cons p ps)
    obtain d ds where "ps @ [60, 124] @ body @ [124, 62] @ post = d # ds"
      by (cases ps) auto
    with Cons show ?case
      by simp
  qed
qed

text \<open>
  C6 (as amended). Stripping a second time changes nothing exactly when the first result
  holds no marker any more. Removing a marker can join the text on its two sides into a new
  marker, which the single pass of \<open>re.sub\<close> does not see; the second pass then removes it.
\<close>

theorem remove_templates_fixed_point_iff:
  "remove_templates (remove_templates s) = remove_templates s
     \<longleftrightarrow> \<not> has_template (remove_templates s)"
proof
  assume eq: "remove_templates (remove_templates s) = remove_templates s"
  show "\<not> has_template (remove_templates s)"
  proof
    assume "has_template (remove_templates s)"
    then have "length (re_sub_templates (remove_templates s)) < length (remove_templates s)"
      by (rule re_sub_has_template)
    moreover have "length (remove_templates (remove_templates s))
        \<le> length (re_sub_templates (remove_templates s))"
      unfolding remove_templates_def [of "strip (re_sub_templates s)"]
        remove_templates_def [of s] by (rule length_strip)
    ultimately show False
      using eq by simp
  qed
next
  assume "\<not> has_template (remove_templates s)"
  then have "re_sub_templates (remove_templates s) = remove_templates s"
    by (rule re_sub_no_template)
  then have "remove_templates (remove_templates s) = strip (remove_templates s)"
    by (simp add: remove_templates_def)
  then show "remove_templates (remove_templates s) = remove_templates s"
    by (simp add: remove_templates_def strip_idem)
qed

theorem remove_templates_fixed_point_iff_witness:
  "remove_templates (remove_templates (py '' <|x|>hi<|y|> '')) = remove_templates (py '' <|x|>hi<|y|> '')
   \<and> \<not> has_template (remove_templates (py '' <|x|>hi<|y|> ''))"
proof -
  have r: "remove_templates (py '' <|x|>hi<|y|> '') = py ''hi''"
    by (simp add: remove_templates_def strip_def is_space_def py_def)
  have "\<not> has_template (py ''hi'')"
    by (simp add: py_def)
  with r show ?thesis
    using remove_templates_fixed_point_iff [of "py '' <|x|>hi<|y|> ''"] by simp
qed

text \<open>
  C6 (as stated) fails: from \<open><<|x|>|y|>\<close> the first pass removes \<open><|x|>\<close> and leaves
  \<open><|y|>\<close>, which the second pass removes whole.
\<close>

theorem remove_templates_not_idempotent:
  "remove_templates (py ''<<|x|>|y|>'') = py ''<|y|>''
   \<and> remove_templates (remove_templates (py ''<<|x|>|y|>'')) = []
   \<and> remove_templates (remove_templates (py ''<<|x|>|y|>'')) \<noteq> remove_templates (py ''<<|x|>|y|>'')"
proof -
  have a: "remove_templates (py ''<<|x|>|y|>'') = py ''<|y|>''"
    by (simp add: remove_templates_def strip_def is_space_def py_def)
  have b: "remove_templates (py ''<|y|>'') = []"
    by (simp add: remove_templates_def strip_def is_space_def py_def)
  from a b show ?thesis
    by (simp add: py_def)
qed

section \<open>Clean texts\<close>

lemma clean_Nil [simp]: "clean []"
  by (simp add: clean_def)

lemma clean_append [simp]: "clean (xs @ ys) \<longleftrightarrow> clean xs \<and> clean ys"
  by (simp add: clean_def)

lemma clean_subset: "set xs \<subseteq> set ys \<Longrightarrow> clean ys \<Longrightarrow> clean xs"
  by (auto simp: clean_def list_all_iff)

lemma clean_py [simp]: "clean (py s)"
proof -
  have "\<not> is_surrogate (of_char c)" for c :: char
  proof -
    have "(of_char c :: nat) mod 256 < 256"
      by simp
    then have "(of_char c :: nat) < 256"
      by simp
    then show ?thesis
      unfolding is_surrogate_def by linarith
  qed
  then show ?thesis
    by (simp add: clean_def py_def list_all_iff)
qed

lemma set_strip: "set (strip s) \<subseteq> set s"
proof -
  have "set (dropWhile is_space (rev (dropWhile is_space s))) \<subseteq> set (rev (dropWhile is_space s))"
    by (auto dest: set_dropWhileD)
  also have "\<dots> \<subseteq> set s"
    by (auto dest: set_dropWhileD)
  finally show ?thesis
    by (simp add: strip_def)
qed

lemma set_lazy_close: "lazy_close cs = Some r \<Longrightarrow> set r \<subseteq> set cs"
  by (induction cs rule: lazy_close.induct) (auto split: if_splits)

lemma set_re_sub: "set (re_sub_templates s) \<subseteq> set s"
proof (induction s rule: re_sub_templates.induct)
  case (3 c d cs)
  show ?case
  proof (cases "c = 60 \<and> d = 124")
    case True
    show ?thesis
    proof (cases "lazy_close cs")
      case None
      with True "3.IH" show ?thesis by auto
    next
      case (Some rest)
      with True "3.IH" have "set (re_sub_templates rest) \<subseteq> set rest"
        by simp
      with True Some set_lazy_close [OF Some] show ?thesis
        by auto
    qed
  next
    case False
    with "3.IH" show ?thesis by auto
  qed
qed simp_all

lemma set_remove_templates: "set (remove_templates s) \<subseteq> set s"
  unfolding remove_templates_def using set_strip set_re_sub by blast

lemma set_until_eot: "until_eot xs = Some g \<Longrightarrow> set g \<subseteq> set xs"
proof (induction xs arbitrary: g)
  case Nil
  then show ?case by simp
next
  case (Cons c cs)
  show ?case
  proof (cases "prefix EOT (c # cs)")
    case True
    with Cons.prems show ?thesis by simp
  next
    case False
    with Cons.prems obtain g' where "until_eot cs = Some g'" "g = c # g'"
      by auto
    with Cons.IH [of g'] show ?thesis
      by auto
  qed
qed

lemma set_re_search_user: "re_search_user p = Some g \<Longrightarrow> set g \<subseteq> set p"
proof (induction p)
  case Nil
  then show ?case by simp
next
  case (Cons c cs)
  show ?case
  proof (cases "prefix USER_OPEN (c # cs) \<and> until_eot (drop (length USER_OPEN) (c # cs)) \<noteq> None")
    case True
    with Cons.prems have "until_eot (drop (length USER_OPEN) (c # cs)) = Some g"
      by (auto simp del: drop_Suc_Cons)
    then have "set g \<subseteq> set (drop (length USER_OPEN) (c # cs))"
      by (rule set_until_eot)
    also have "\<dots> \<subseteq> set (c # cs)"
      by (rule set_drop_subset)
    finally show ?thesis .
  next
    case False
    with Cons.prems have "re_search_user cs = Some g"
      by (auto simp del: drop_Suc_Cons split: if_splits option.splits)
    with Cons.IH show ?thesis
      by auto
  qed
qed

lemma set_extract_instruction: "set (extract_instruction p) \<subseteq> set p"
proof (cases "re_search_user p")
  case None
  then show ?thesis by (simp add: extract_instruction_def)
next
  case (Some g)
  with set_re_search_user [OF Some] set_remove_templates [of g] show ?thesis
    by (auto simp: extract_instruction_def)
qed

lemma clean_remove_templates: "clean s \<Longrightarrow> clean (remove_templates s)"
  using clean_subset set_remove_templates by blast

lemma clean_extract_instruction: "clean p \<Longrightarrow> clean (extract_instruction p)"
  using clean_subset set_extract_instruction by blast

lemma hex_digit_small: "d < 16 \<Longrightarrow> hex_digit d < 128"
  by (simp add: hex_digit_def)

lemma clean_escape_char: "\<not> is_surrogate c \<Longrightarrow> clean (escape_char c)"
proof (cases "c < 32")
  case True
  then have "c div 16 < 16" "c mod 16 < 16"
    by simp_all
  then have "hex_digit (c div 16) < 128" "hex_digit (c mod 16) < 128"
    by (simp_all only: hex_digit_small)
  then have "\<forall>x \<in> set (escape_char c). x < 128"
    using True by (simp add: escape_char_def)
  then show ?thesis
    by (auto simp: clean_def list_all_iff is_surrogate_def)
next
  case False
  assume "\<not> is_surrogate c"
  with False show ?thesis
    by (simp add: escape_char_def clean_def is_surrogate_def)
qed

lemma clean_dumps_str: "clean s \<Longrightarrow> clean (dumps_str s)"
proof -
  assume "clean s"
  then have "clean (concat (map escape_char s))"
  proof (induction s)
    case Nil
    show ?case by simp
  next
    case (Cons c cs)
    then show ?case
      by (simp add: clean_def clean_escape_char [unfolded clean_def])
  qed
  then show ?thesis
    by (simp add: dumps_str_def clean_def is_surrogate_def)
qed

lemma clean_json_dumps:
  "clean (instruction e) \<Longrightarrow> clean (input e) \<Longrightarrow> clean (system e) \<Longrightarrow> clean (output_label e)
     \<Longrightarrow> clean (json_dumps e)"
  by (simp add: json_dumps_def clean_dumps_str)

lemma clean_templates:
  "clean template_head" "clean template_before_a" "clean template_before_b" "clean template_tail"
  "clean SYSTEM"
  by (simp_all only: template_head_def template_before_a_def template_before_b_def
      template_tail_def SYSTEM_def clean_py)

section \<open>Properties of the loop body\<close>

lemma render_placed: "render instr a_text b_text = placed instr a_text b_text"
  by (simp add: render_def template_before_a_def template_before_b_def)

lemma labels_differ: "py ''Output (a)'' \<noteq> py ''Output (b)''"
  by (simp add: py_def)

lemma expect_str_get:
  "is_str_or_absent (d k) \<Longrightarrow> expect_str (dict_get d k (JStr [])) = Inr (text_of (d k))"
  by (auto simp: is_str_or_absent_def dict_get_def text_of_def split: option.splits json.splits)

lemma expect_str_get_iff:
  "expect_str (dict_get d k (JStr [])) = Inr s \<longleftrightarrow> is_str_or_absent (d k) \<and> s = text_of (d k)"
  by (auto simp: is_str_or_absent_def dict_get_def text_of_def split: option.splits json.splits)

lemma process_record_typed:
  assumes "is_preference_record (JObj d)"
  shows "process_record tog (JObj d) =
    Inr \<lparr>instruction =
           (let chosen_text = remove_templates (text_of (d (py ''chosen'')));
                rejected_text = remove_templates (text_of (d (py ''rejected'')));
                instr = extract_instruction (text_of (d (py ''prompt'')));
                swap = py_eq_int (dict_get d (py ''results'') (JInt 1)) 0
            in if tog = swap then placed instr rejected_text chosen_text
               else placed instr chosen_text rejected_text),
         input = [], system = SYSTEM,
         output_label = (if tog then py ''Output (a)'' else py ''Output (b)'')\<rparr>"
  using assms
  by (simp add: process_record_def is_preference_record_def expect_str_get
      assign_positions_def correct_pair_def render_placed Let_def)

lemma process_record_Inr_iff:
  "(\<exists>e. process_record tog data = Inr e) \<longleftrightarrow> is_preference_record data"
proof
  assume "\<exists>e. process_record tog data = Inr e"
  then show "is_preference_record data"
    by (auto simp: process_record_def is_preference_record_def expect_str_get_iff
        split: json.splits sum.splits)
next
  assume "is_preference_record data"
  then show "\<exists>e. process_record tog data = Inr e"
    by (cases data) (simp_all add: process_record_typed, simp_all add: is_preference_record_def)
qed

lemma process_record_label:
  "process_record tog data = Inr e \<Longrightarrow>
     output_label e = (if tog then py ''Output (a)'' else py ''Output (b)'')"
proof -
  assume a: "process_record tog data = Inr e"
  then have "is_preference_record data"
    using process_record_Inr_iff by blast
  then obtain d where "data = JObj d"
    by (cases data) (simp_all add: is_preference_record_def)
  with a \<open>is_preference_record data\<close> show ?thesis
    by (auto simp: process_record_typed)
qed

lemma process_record_clean:
  assumes "is_preference_record data" and "has_clean_texts data"
    and "process_record tog data = Inr e"
  shows "clean (json_dumps e)"
proof -
  from assms(1) obtain d where d: "data = JObj d"
    by (cases data) (simp_all add: is_preference_record_def)
  from assms(2) d have c: "clean (remove_templates (text_of (d (py ''chosen''))))"
    "clean (remove_templates (text_of (d (py ''rejected''))))"
    "clean (extract_instruction (text_of (d (py ''prompt''))))"
    by (simp_all add: has_clean_texts_def clean_remove_templates clean_extract_instruction)
  from assms(1,3) d have e: "e =
    \<lparr>instruction =
           (let chosen_text = remove_templates (text_of (d (py ''chosen'')));
                rejected_text = remove_templates (text_of (d (py ''rejected'')));
                instr = extract_instruction (text_of (d (py ''prompt'')));
                swap = py_eq_int (dict_get d (py ''results'') (JInt 1)) 0
            in if tog = swap then placed instr rejected_text chosen_text
               else placed instr chosen_text rejected_text),
         input = [], system = SYSTEM,
         output_label = (if tog then py ''Output (a)'' else py ''Output (b)'')\<rparr>"
    by (simp add: process_record_typed)
  show ?thesis
    by (rule clean_json_dumps) (simp_all add: e c clean_templates Let_def)
qed

section \<open>Properties of the loop and of the write stage\<close>

lemma process_lines_blank:
  "strip raw = [] \<Longrightarrow> process_lines loads ((n, raw) # rest) st = process_lines loads rest st"
  by simp

lemma process_lines_skip:
  "strip raw \<noteq> [] \<Longrightarrow> loads (strip raw) = Inl JSONDecodeError \<Longrightarrow>
     process_lines loads ((n, raw) # rest) st
       = process_lines loads rest (st\<lparr>printed := printed st @ [(n, strip raw)]\<rparr>)"
  by simp

lemma process_lines_raise:
  "strip raw \<noteq> [] \<Longrightarrow> loads (strip raw) = Inl e \<Longrightarrow> e \<noteq> JSONDecodeError \<Longrightarrow>
     process_lines loads ((n, raw) # rest) st = Inl e"
  by simp

lemma process_lines_record:
  "strip raw \<noteq> [] \<Longrightarrow> loads (strip raw) = Inr data \<Longrightarrow>
     process_lines loads ((n, raw) # rest) st
       = (case process_record (toggle st) data of
            Inl e \<Rightarrow> Inl e
          | Inr x \<Rightarrow> process_lines loads rest
               (st\<lparr>output_data := output_data st @ [x], toggle := \<not> toggle st\<rparr>))"
  by simp

lemma line_cases:
  obtains (blank) "strip raw = []"
  | (skip) "strip raw \<noteq> []" "loads (strip raw) = Inl JSONDecodeError"
  | (raise) e where "strip raw \<noteq> []" "loads (strip raw) = Inl e" "e \<noteq> JSONDecodeError"
  | (parsed) data where "strip raw \<noteq> []" "loads (strip raw) = Inr data"
  by (cases "loads (strip raw)") auto

lemma parity_step: "((\<not> t) = even n) = (t = even (Suc n))"
  by auto

lemma process_lines_structure:
  assumes "process_lines loads ls st = Inr st'"
  shows "\<exists>es. output_data st' = output_data st @ es
      \<and> toggle st' = (toggle st = even (length es))
      \<and> outfile st' = outfile st
      \<and> (\<forall>i < length es. \<exists>n raw data. (n, raw) \<in> set ls \<and> loads (strip raw) = Inr data
            \<and> process_record (toggle st = even i) data = Inr (es ! i))"
  using assms
proof (induction ls arbitrary: st)
  case Nil
  then have "st' = st" by simp
  then show ?case by simp
next
  case (Cons l ls)
  obtain n raw where l: "l = (n, raw)"
    by (cases l)
  have mono: "\<forall>i < length es. \<exists>n raw data. (n, raw) \<in> set (l # ls) \<and> loads (strip raw) = Inr data
            \<and> process_record (t = even i) data = Inr (es ! i)"
    if "\<forall>i < length es. \<exists>n raw data. (n, raw) \<in> set ls \<and> loads (strip raw) = Inr data
            \<and> process_record (t = even i) data = Inr (es ! i)" for es t
    using that by (meson list.set_intros(2))
  show ?case
  proof (cases rule: line_cases [where raw = raw and loads = loads])
    case blank
    have "process_lines loads (l # ls) st = process_lines loads ls st"
      unfolding l by (rule process_lines_blank [OF blank])
    with Cons.prems have "process_lines loads ls st = Inr st'"
      by simp
    from Cons.IH [OF this] obtain es where es:
      "output_data st' = output_data st @ es"
      "toggle st' = (toggle st = even (length es))"
      "outfile st' = outfile st"
      "\<forall>i < length es. \<exists>n raw data. (n, raw) \<in> set ls \<and> loads (strip raw) = Inr data
            \<and> process_record (toggle st = even i) data = Inr (es ! i)"
      by blast
    from es(1-3) mono [OF es(4)] show ?thesis
      by blast
  next
    case skip
    have "process_lines loads (l # ls) st
        = process_lines loads ls (st\<lparr>printed := printed st @ [(n, strip raw)]\<rparr>)"
      unfolding l by (rule process_lines_skip [where loads = loads, OF skip])
    with Cons.prems have
      "process_lines loads ls (st\<lparr>printed := printed st @ [(n, strip raw)]\<rparr>) = Inr st'"
      by simp
    from Cons.IH [OF this] have "\<exists>es. output_data st' = output_data st @ es
      \<and> toggle st' = (toggle st = even (length es))
      \<and> outfile st' = outfile st
      \<and> (\<forall>i < length es. \<exists>n raw data. (n, raw) \<in> set ls \<and> loads (strip raw) = Inr data
            \<and> process_record (toggle st = even i) data = Inr (es ! i))"
      by simp
    then obtain es where es:
      "output_data st' = output_data st @ es"
      "toggle st' = (toggle st = even (length es))"
      "outfile st' = outfile st"
      "\<forall>i < length es. \<exists>n raw data. (n, raw) \<in> set ls \<and> loads (strip raw) = Inr data
            \<and> process_record (toggle st = even i) data = Inr (es ! i)"
      by blast
    from es(1-3) mono [OF es(4)] show ?thesis
      by blast
  next
    case (raise e)
    have "process_lines loads (l # ls) st = Inl e"
      unfolding l by (rule process_lines_raise [where loads = loads, OF raise])
    with Cons.prems show ?thesis
      by simp
  next
    case (parsed data)
    have "process_lines loads (l # ls) st = (case process_record (toggle st) data of
            Inl e \<Rightarrow> Inl e
          | Inr x \<Rightarrow> process_lines loads ls
               (st\<lparr>output_data := output_data st @ [x], toggle := \<not> toggle st\<rparr>))"
      unfolding l by (rule process_lines_record [where loads = loads, OF parsed])
    with Cons.prems have run: "(case process_record (toggle st) data of
            Inl e \<Rightarrow> Inl e
          | Inr x \<Rightarrow> process_lines loads ls
               (st\<lparr>output_data := output_data st @ [x], toggle := \<not> toggle st\<rparr>)) = Inr st'"
      by simp
    then obtain x where x: "process_record (toggle st) data = Inr x"
      and rest: "process_lines loads ls
               (st\<lparr>output_data := output_data st @ [x], toggle := \<not> toggle st\<rparr>) = Inr st'"
      by (cases "process_record (toggle st) data") simp_all
    from Cons.IH [OF rest] have "\<exists>es. output_data st' = (output_data st @ [x]) @ es
      \<and> toggle st' = ((\<not> toggle st) = even (length es))
      \<and> outfile st' = outfile st
      \<and> (\<forall>i < length es. \<exists>n raw data. (n, raw) \<in> set ls \<and> loads (strip raw) = Inr data
            \<and> process_record ((\<not> toggle st) = even i) data = Inr (es ! i))"
      by simp
    then obtain es where es:
      "output_data st' = (output_data st @ [x]) @ es"
      "toggle st' = ((\<not> toggle st) = even (length es))"
      "outfile st' = outfile st"
      "\<forall>i < length es. \<exists>n raw data. (n, raw) \<in> set ls \<and> loads (strip raw) = Inr data
            \<and> process_record ((\<not> toggle st) = even i) data = Inr (es ! i)"
      by blast
    have each: "\<exists>n raw data. (n, raw) \<in> set (l # ls) \<and> loads (strip raw) = Inr data
            \<and> process_record (toggle st = even i) data = Inr ((x # es) ! i)"
      if "i < length (x # es)" for i
    proof (cases i)
      case 0
      have "(toggle st = even (0::nat)) = toggle st"
        by simp
      with x parsed l 0 show ?thesis
        by (intro exI [of _ n] exI [of _ raw] exI [of _ data]) simp
    next
      case (Suc j)
      with that have "j < length es"
        by simp
      with es(4) obtain n' raw' data' where
        "(n', raw') \<in> set ls" "loads (strip raw') = Inr data'"
        "process_record ((\<not> toggle st) = even j) data' = Inr (es ! j)"
        by blast
      then show ?thesis
        unfolding Suc parity_step [symmetric]
        by (intro exI [of _ n'] exI [of _ raw'] exI [of _ data']) simp
    qed
    have "output_data st' = output_data st @ (x # es)"
      using es(1) by simp
    moreover have "toggle st' = (toggle st = even (length (x # es)))"
      unfolding es(2) parity_step by simp
    ultimately show ?thesis
      using es(3) each by blast
  qed
qed

lemma write_lines_Inr:
  "write_lines es acc = Inr w \<Longrightarrow> w = acc @ map (\<lambda>e. json_dumps e @ [10]) es"
proof (induction es arbitrary: acc)
  case Nil
  then show ?case by simp
next
  case (Cons e es)
  from Cons.prems have "write_lines es (acc @ [json_dumps e @ [10]]) = Inr w"
    by (simp add: Let_def split: if_splits)
  from Cons.IH [OF this] show ?case
    by simp
qed

lemma write_lines_clean:
  "\<forall>e \<in> set es. clean (json_dumps e) \<Longrightarrow>
     write_lines es acc = Inr (acc @ map (\<lambda>e. json_dumps e @ [10]) es)"
proof (induction es arbitrary: acc)
  case Nil
  show ?case by simp
next
  case (Cons e es)
  then have "\<not> list_ex is_surrogate (json_dumps e @ [10])"
    by (simp add: clean_def list_ex_iff list_all_iff is_surrogate_def)
  with Cons show ?case
    by (simp add: Let_def)
qed

lemma process_file_Inr:
  assumes "process_file loads lines = Inr st"
  obtains st' where
    "process_lines loads (enumerate 1 lines)
        \<lparr>output_data = [], toggle = True, printed = [], outfile = []\<rparr> = Inr st'"
    "st = st'\<lparr>outfile := map (\<lambda>e. json_dumps e @ [10]) (output_data st')\<rparr>"
proof -
  from assms obtain st' w where a: "process_lines loads (enumerate 1 lines)
        \<lparr>output_data = [], toggle = True, printed = [], outfile = []\<rparr> = Inr st'"
    and b: "write_lines (output_data st') [] = Inr w" and c: "st = st'\<lparr>outfile := w\<rparr>"
    by (auto simp: process_file_def split: sum.splits)
  from write_lines_Inr [OF b] c have "st = st'\<lparr>outfile := map (\<lambda>e. json_dumps e @ [10]) (output_data st')\<rparr>"
    by simp
  with a that show ?thesis
    by blast
qed

section \<open>Runs over files of blank, malformed and well-formed lines\<close>

lemma line_kinds_exclusive:
  "blank_line raw \<Longrightarrow> \<not> malformed_line loads raw \<and> \<not> well_formed_line loads raw"
  "malformed_line loads raw \<Longrightarrow> \<not> blank_line raw \<and> \<not> well_formed_line loads raw"
  "well_formed_line loads raw \<Longrightarrow> \<not> blank_line raw \<and> \<not> malformed_line loads raw"
  by (auto simp: blank_line_def malformed_line_def well_formed_line_def)

lemma well_formed_lineD:
  assumes "well_formed_line loads raw"
  obtains d where "strip raw \<noteq> []" "loads (strip raw) = Inr (JObj d)"
    "is_preference_record (JObj d)" "has_clean_texts (JObj d)"
proof -
  from assms obtain data where a: "strip raw \<noteq> []" "loads (strip raw) = Inr data"
    "is_preference_record data" "has_clean_texts data"
    by (auto simp: well_formed_line_def split: sum.splits)
  from a(3) obtain d where "data = JObj d"
    by (cases data) (simp_all add: is_preference_record_def)
  with a that show ?thesis
    by blast
qed

lemma process_lines_acceptable:
  assumes "\<forall>raw \<in> set ls. blank_line raw \<or> malformed_line loads raw \<or> well_formed_line loads raw"
  shows "\<exists>es. process_lines loads (enumerate n ls) st
        = Inr (st\<lparr>output_data := output_data st @ es,
                  toggle := (toggle st = even (length es)),
                  printed := printed st @ map (\<lambda>(m, raw). (m, strip raw))
                     (filter (\<lambda>(m, raw). malformed_line loads raw) (enumerate n ls))\<rparr>)
     \<and> length es = length (filter (well_formed_line loads) ls)
     \<and> (\<forall>i < length es. \<exists>d.
           loads (strip (filter (well_formed_line loads) ls ! i)) = Inr (JObj d)
           \<and> is_preference_record (JObj d) \<and> has_clean_texts (JObj d)
           \<and> process_record (toggle st = even i) (JObj d) = Inr (es ! i))"
  using assms
proof (induction ls arbitrary: n st)
  case Nil
  show ?case by simp
next
  case (Cons raw ls)
  then have rest: "\<forall>raw \<in> set ls. blank_line raw \<or> malformed_line loads raw \<or> well_formed_line loads raw"
    by simp
  from Cons.prems consider (blank) "blank_line raw" | (bad) "malformed_line loads raw"
    | (good) "well_formed_line loads raw"
    by auto
  then show ?case
  proof cases
    case blank
    from Cons.IH [OF rest, of "Suc n" st] obtain es where es:
      "process_lines loads (enumerate (Suc n) ls) st
        = Inr (st\<lparr>output_data := output_data st @ es,
                  toggle := (toggle st = even (length es)),
                  printed := printed st @ map (\<lambda>(m, raw). (m, strip raw))
                     (filter (\<lambda>(m, raw). malformed_line loads raw) (enumerate (Suc n) ls))\<rparr>)"
      "length es = length (filter (well_formed_line loads) ls)"
      "\<forall>i < length es. \<exists>d.
           loads (strip (filter (well_formed_line loads) ls ! i)) = Inr (JObj d)
           \<and> is_preference_record (JObj d) \<and> has_clean_texts (JObj d)
           \<and> process_record (toggle st = even i) (JObj d) = Inr (es ! i)"
      by blast
    from blank have "strip raw = []"
      by (simp add: blank_line_def)
    then have "process_lines loads (enumerate n (raw # ls)) st
        = process_lines loads (enumerate (Suc n) ls) st"
      by (simp only: enumerate_simps process_lines_blank)
    with es line_kinds_exclusive(1) [OF blank, of loads] show ?thesis
      by (intro exI [of _ es]) simp
  next
    case bad
    let ?st1 = "st\<lparr>printed := printed st @ [(n, strip raw)]\<rparr>"
    from Cons.IH [OF rest, of "Suc n" ?st1] have "\<exists>es.
      process_lines loads (enumerate (Suc n) ls) ?st1
        = Inr (st\<lparr>output_data := output_data st @ es,
                  toggle := (toggle st = even (length es)),
                  printed := printed st @ (n, strip raw) # map (\<lambda>(m, raw). (m, strip raw))
                     (filter (\<lambda>(m, raw). malformed_line loads raw) (enumerate (Suc n) ls))\<rparr>)
      \<and> length es = length (filter (well_formed_line loads) ls)
      \<and> (\<forall>i < length es. \<exists>d.
           loads (strip (filter (well_formed_line loads) ls ! i)) = Inr (JObj d)
           \<and> is_preference_record (JObj d) \<and> has_clean_texts (JObj d)
           \<and> process_record (toggle st = even i) (JObj d) = Inr (es ! i))"
      by simp
    then obtain es where es:
      "process_lines loads (enumerate (Suc n) ls) ?st1
        = Inr (st\<lparr>output_data := output_data st @ es,
                  toggle := (toggle st = even (length es)),
                  printed := printed st @ (n, strip raw) # map (\<lambda>(m, raw). (m, strip raw))
                     (filter (\<lambda>(m, raw). malformed_line loads raw) (enumerate (Suc n) ls))\<rparr>)"
      "length es = length (filter (well_formed_line loads) ls)"
      "\<forall>i < length es. \<exists>d.
           loads (strip (filter (well_formed_line loads) ls ! i)) = Inr (JObj d)
           \<and> is_preference_record (JObj d) \<and> has_clean_texts (JObj d)
           \<and> process_record (toggle st = even i) (JObj d) = Inr (es ! i)"
      by blast
    from bad have b: "strip raw \<noteq> []" "loads (strip raw) = Inl JSONDecodeError"
      by (simp_all add: malformed_line_def)
    have "process_lines loads (enumerate n (raw # ls)) st
        = process_lines loads (enumerate (Suc n) ls) ?st1"
      unfolding enumerate_simps by (rule process_lines_skip [where loads = loads, OF b])
    with es bad line_kinds_exclusive(2) [OF bad] show ?thesis
      by (intro exI [of _ es]) simp
  next
    case good
    then obtain d where d: "strip raw \<noteq> []" "loads (strip raw) = Inr (JObj d)"
      "is_preference_record (JObj d)" "has_clean_texts (JObj d)"
      by (rule well_formed_lineD)
    from d(3) obtain x where x: "process_record (toggle st) (JObj d) = Inr x"
      using process_record_Inr_iff by blast
    let ?st2 = "st\<lparr>output_data := output_data st @ [x], toggle := \<not> toggle st\<rparr>"
    from Cons.IH [OF rest, of "Suc n" ?st2] have "\<exists>es.
      process_lines loads (enumerate (Suc n) ls) ?st2
        = Inr (st\<lparr>output_data := output_data st @ x # es,
                  toggle := ((\<not> toggle st) = even (length es)),
                  printed := printed st @ map (\<lambda>(m, raw). (m, strip raw))
                     (filter (\<lambda>(m, raw). malformed_line loads raw) (enumerate (Suc n) ls))\<rparr>)
      \<and> length es = length (filter (well_formed_line loads) ls)
      \<and> (\<forall>i < length es. \<exists>d.
           loads (strip (filter (well_formed_line loads) ls ! i)) = Inr (JObj d)
           \<and> is_preference_record (JObj d) \<and> has_clean_texts (JObj d)
           \<and> process_record ((\<not> toggle st) = even i) (JObj d) = Inr (es ! i))"
      by simp
    then obtain es where es:
      "process_lines loads (enumerate (Suc n) ls) ?st2
        = Inr (st\<lparr>output_data := output_data st @ x # es,
                  toggle := ((\<not> toggle st) = even (length es)),
                  printed := printed st @ map (\<lambda>(m, raw). (m, strip raw))
                     (filter (\<lambda>(m, raw). malformed_line loads raw) (enumerate (Suc n) ls))\<rparr>)"
      "length es = length (filter (well_formed_line loads) ls)"
      "\<forall>i < length es. \<exists>d.
           loads (strip (filter (well_formed_line loads) ls ! i)) = Inr (JObj d)
           \<and> is_preference_record (JObj d) \<and> has_clean_texts (JObj d)
           \<and> process_record ((\<not> toggle st) = even i) (JObj d) = Inr (es ! i)"
      by blast
    have "process_lines loads (enumerate n (raw # ls)) st
        = (case process_record (toggle st) (JObj d) of
            Inl e \<Rightarrow> Inl e
          | Inr x \<Rightarrow> process_lines loads (enumerate (Suc n) ls)
               (st\<lparr>output_data := output_data st @ [x], toggle := \<not> toggle st\<rparr>))"
      unfolding enumerate_simps by (rule process_lines_record [where loads = loads, OF d(1,2)])
    then have "process_lines loads (enumerate n (raw # ls)) st
        = Inr (st\<lparr>output_data := output_data st @ x # es,
                  toggle := ((\<not> toggle st) = even (length es)),
                  printed := printed st @ map (\<lambda>(m, raw). (m, strip raw))
                     (filter (\<lambda>(m, raw). malformed_line loads raw) (enumerate n (raw # ls)))\<rparr>)"
      using x es(1) line_kinds_exclusive(3) [OF good] by simp
    moreover have "((\<not> toggle st) = even (length es)) = (toggle st = even (length (x # es)))"
      by auto
    ultimately have run: "process_lines loads (enumerate n (raw # ls)) st
        = Inr (st\<lparr>output_data := output_data st @ x # es,
                  toggle := (toggle st = even (length (x # es))),
                  printed := printed st @ map (\<lambda>(m, raw). (m, strip raw))
                     (filter (\<lambda>(m, raw). malformed_line loads raw) (enumerate n (raw # ls)))\<rparr>)"
      by (simp only:)
    have each: "\<exists>d. loads (strip (filter (well_formed_line loads) (raw # ls) ! i)) = Inr (JObj d)
           \<and> is_preference_record (JObj d) \<and> has_clean_texts (JObj d)
           \<and> process_record (toggle st = even i) (JObj d) = Inr ((x # es) ! i)"
      if "i < length (x # es)" for i
    proof (cases i)
      case 0
      have "(toggle st = even (0::nat)) = toggle st"
        by simp
      with 0 good d x show ?thesis
        by (intro exI [of _ d]) simp
    next
      case (Suc j)
      with that have "j < length es"
        by simp
      with es(3) obtain d' where
        "loads (strip (filter (well_formed_line loads) ls ! j)) = Inr (JObj d')"
        "is_preference_record (JObj d')" "has_clean_texts (JObj d')"
        "process_record ((\<not> toggle st) = even j) (JObj d') = Inr (es ! j)"
        by blast
      with good show ?thesis
        unfolding Suc parity_step [symmetric]
        by (intro exI [of _ d']) simp
    qed
    have len: "length (x # es) = length (filter (well_formed_line loads) (raw # ls))"
      using es(2) good by simp
    show ?thesis
    proof (intro exI [of _ "x # es"] conjI)
      show "process_lines loads (enumerate n (raw # ls)) st
        = Inr (st\<lparr>output_data := output_data st @ x # es,
                  toggle := (toggle st = even (length (x # es))),
                  printed := printed st @ map (\<lambda>(m, raw). (m, strip raw))
                     (filter (\<lambda>(m, raw). malformed_line loads raw) (enumerate n (raw # ls)))\<rparr>)"
        by (rule run)
      show "length (x # es) = length (filter (well_formed_line loads) (raw # ls))"
        by (rule len)
      show "\<forall>i < length (x # es). \<exists>d.
           loads (strip (filter (well_formed_line loads) (raw # ls) ! i)) = Inr (JObj d)
           \<and> is_preference_record (JObj d) \<and> has_clean_texts (JObj d)
           \<and> process_record (toggle st = even i) (JObj d) = Inr ((x # es) ! i)"
        using each by blast
    qed
  qed
qed

lemma process_file_acceptable:
  assumes "\<forall>raw \<in> set lines. blank_line raw \<or> malformed_line loads raw \<or> well_formed_line loads raw"
  shows "\<exists>st. process_file loads lines = Inr st
     \<and> length (output_data st) = length (filter (well_formed_line loads) lines)
     \<and> toggle st = even (length (output_data st))
     \<and> printed st = map (\<lambda>(n, raw). (n, strip raw))
          (filter (\<lambda>(n, raw). malformed_line loads raw) (enumerate 1 lines))
     \<and> outfile st = map (\<lambda>e. json_dumps e @ [10]) (output_data st)
     \<and> (\<forall>i < length (output_data st). \<exists>d.
           loads (strip (filter (well_formed_line loads) lines ! i)) = Inr (JObj d)
           \<and> is_preference_record (JObj d)
           \<and> process_record (even i) (JObj d) = Inr (output_data st ! i))"
proof -
  let ?st0 = "\<lparr>output_data = [], toggle = True, printed = [], outfile = []\<rparr>"
  from process_lines_acceptable [OF assms, of 1 ?st0] have "\<exists>es.
    process_lines loads (enumerate 1 lines) ?st0
        = Inr \<lparr>output_data = es, toggle = even (length es),
               printed = map (\<lambda>(m, raw). (m, strip raw))
                     (filter (\<lambda>(m, raw). malformed_line loads raw) (enumerate 1 lines)),
               outfile = []\<rparr>
     \<and> length es = length (filter (well_formed_line loads) lines)
     \<and> (\<forall>i < length es. \<exists>d.
           loads (strip (filter (well_formed_line loads) lines ! i)) = Inr (JObj d)
           \<and> is_preference_record (JObj d) \<and> has_clean_texts (JObj d)
           \<and> process_record (even i) (JObj d) = Inr (es ! i))"
    by simp
  then obtain es where es:
    "process_lines loads (enumerate 1 lines) ?st0
        = Inr \<lparr>output_data = es, toggle = even (length es),
               printed = map (\<lambda>(m, raw). (m, strip raw))
                     (filter (\<lambda>(m, raw). malformed_line loads raw) (enumerate 1 lines)),
               outfile = []\<rparr>"
    "length es = length (filter (well_formed_line loads) lines)"
    "\<forall>i < length es. \<exists>d.
           loads (strip (filter (well_formed_line loads) lines ! i)) = Inr (JObj d)
           \<and> is_preference_record (JObj d) \<and> has_clean_texts (JObj d)
           \<and> process_record (even i) (JObj d) = Inr (es ! i)"
    by blast
  have "clean (json_dumps e)" if "e \<in> set es" for e
  proof -
    from that obtain i where i: "i < length es" "e = es ! i"
      by (auto simp: in_set_conv_nth)
    with es(3) obtain d where "is_preference_record (JObj d)" "has_clean_texts (JObj d)"
      "process_record (even i) (JObj d) = Inr (es ! i)"
      by blast
    then show ?thesis
      unfolding i(2) by (rule process_record_clean)
  qed
  then have "write_lines es [] = Inr ([] @ map (\<lambda>e. json_dumps e @ [10]) es)"
    by (intro write_lines_clean) blast
  with es(1) have run: "process_file loads lines
      = Inr \<lparr>output_data = es, toggle = even (length es),
               printed = map (\<lambda>(m, raw). (m, strip raw))
                     (filter (\<lambda>(m, raw). malformed_line loads raw) (enumerate 1 lines)),
               outfile = map (\<lambda>e. json_dumps e @ [10]) es\<rparr>"
    by (simp add: process_file_def)
  from es(3) have "\<forall>i < length es. \<exists>d.
           loads (strip (filter (well_formed_line loads) lines ! i)) = Inr (JObj d)
           \<and> is_preference_record (JObj d)
           \<and> process_record (even i) (JObj d) = Inr (es ! i)"
    by blast
  with run es(2) show ?thesis
    by simp
qed

section \<open>Properties of the instruction extractor\<close>

lemma USER_OPEN_nonempty: "USER_OPEN \<noteq> []"
  by (simp add: USER_OPEN_def py_def)

lemma EOT_nonempty: "EOT \<noteq> []"
  by (simp add: EOT_def py_def)

lemma until_eot_Some: "until_eot xs = Some g \<Longrightarrow> \<exists>post. xs = g @ EOT @ post"
proof (induction xs arbitrary: g)
  case Nil
  then show ?case by simp
next
  case (Cons c cs)
  show ?case
  proof (cases "prefix EOT (c # cs)")
    case True
    with Cons.prems have "g = []" by simp
    with True show ?thesis
      by (auto simp: prefix_def)
  next
    case False
    with Cons.prems obtain g' where g': "until_eot cs = Some g'" "g = c # g'"
      by auto
    from Cons.IH [OF g'(1)] g'(2) show ?thesis
      by auto
  qed
qed

lemma re_search_user_None:
  "\<forall>g. \<not> sublist (USER_OPEN @ g @ EOT) p \<Longrightarrow> re_search_user p = None"
proof (induction p)
  case Nil
  then show ?case by simp
next
  case (Cons c cs)
  then have rest: "re_search_user cs = None"
    by (auto simp: sublist_Cons_right)
  show ?case
  proof (cases "prefix USER_OPEN (c # cs)")
    case False
    with rest show ?thesis by simp
  next
    case True
    then obtain r where r: "c # cs = USER_OPEN @ r"
      by (auto simp: prefix_def)
    have "until_eot r = None"
    proof (rule ccontr)
      assume "until_eot r \<noteq> None"
      then obtain g post where "r = g @ EOT @ post"
        using until_eot_Some by blast
      with r have "c # cs = [] @ (USER_OPEN @ g @ EOT) @ post"
        by simp
      then have "sublist (USER_OPEN @ g @ EOT) (c # cs)"
        unfolding sublist_def by blast
      with Cons.prems show False by blast
    qed
    moreover have "drop (length USER_OPEN) (c # cs) = r"
      unfolding r by simp
    ultimately show ?thesis
      using True rest by (simp del: drop_Suc_Cons)
  qed
qed

lemma prefix_inside:
  assumes "prefix m (g @ m @ post)" and "g \<noteq> []" and "m \<noteq> []"
  shows "prefix m (g @ butlast m)"
proof -
  from assms(3) have m: "m = butlast m @ [last m]"
    by simp
  then have "g @ m @ post = (g @ butlast m) @ (last m # post)"
    by (metis append.assoc append_Cons append_Nil)
  with assms(1) have "prefix m ((g @ butlast m) @ (last m # post))"
    by simp
  then consider "prefix m (g @ butlast m)"
    | us where "m = (g @ butlast m) @ us"
    unfolding prefix_append [of m "g @ butlast m"] by blast
  then show ?thesis
  proof cases
    case 1
    then show ?thesis .
  next
    case 2
    then have "length m = length g + length (butlast m) + length us"
      by (metis length_append)
    then have "length m = length g + (length m - 1) + length us"
      by simp
    moreover from assms(2,3) have "0 < length g" "0 < length m"
      by simp_all
    ultimately have "length us = 0"
      by arith
    then have "us = []"
      by simp
    with 2 have "g @ butlast m = m"
      by simp
    then show ?thesis
      by simp
  qed
qed

lemma until_eot_first:
  "\<not> sublist EOT (g @ butlast EOT) \<Longrightarrow> until_eot (g @ EOT @ post) = Some g"
proof (induction g)
  case Nil
  obtain c cs where "EOT @ post = c # cs"
    using EOT_nonempty by (cases "EOT @ post") auto
  moreover have "prefix EOT (EOT @ post)"
    by simp
  ultimately show ?case
    by simp
next
  case (Cons x xs)
  have "\<not> prefix EOT ((x # xs) @ EOT @ post)"
  proof
    assume "prefix EOT ((x # xs) @ EOT @ post)"
    then have "prefix EOT ((x # xs) @ butlast EOT)"
      using EOT_nonempty by (intro prefix_inside) simp_all
    then have "sublist EOT ((x # xs) @ butlast EOT)"
      by (rule prefix_imp_sublist)
    with Cons.prems show False by contradiction
  qed
  moreover from Cons.prems have "\<not> sublist EOT (xs @ butlast EOT)"
    by (simp add: sublist_Cons_right)
  ultimately show ?case
    using Cons.IH by simp
qed

lemma re_search_user_first:
  assumes "\<not> sublist USER_OPEN (pre @ butlast USER_OPEN)"
    and "\<not> sublist EOT (g @ butlast EOT)"
  shows "re_search_user (pre @ USER_OPEN @ g @ EOT @ post) = Some g"
  using assms(1)
proof (induction pre)
  case Nil
  obtain c cs where cs: "USER_OPEN @ g @ EOT @ post = c # cs"
    using USER_OPEN_nonempty by (cases "USER_OPEN @ g @ EOT @ post") auto
  have "prefix USER_OPEN (USER_OPEN @ g @ EOT @ post)"
    by simp
  moreover have "until_eot (drop (length USER_OPEN) (USER_OPEN @ g @ EOT @ post)) = Some g"
    using until_eot_first [OF assms(2)] by simp
  ultimately have "re_search_user (c # cs) = Some g"
    unfolding cs by (simp del: drop_Suc_Cons)
  with cs show ?case
    by simp
next
  case (Cons x xs)
  have "\<not> prefix USER_OPEN ((x # xs) @ USER_OPEN @ g @ EOT @ post)"
  proof
    assume "prefix USER_OPEN ((x # xs) @ USER_OPEN @ g @ EOT @ post)"
    then have "prefix USER_OPEN ((x # xs) @ butlast USER_OPEN)"
      using USER_OPEN_nonempty by (intro prefix_inside) simp_all
    then have "sublist USER_OPEN ((x # xs) @ butlast USER_OPEN)"
      by (rule prefix_imp_sublist)
    with Cons.prems show False by contradiction
  qed
  moreover from Cons.prems have "\<not> sublist USER_OPEN (xs @ butlast USER_OPEN)"
    by (simp add: sublist_Cons_right)
  ultimately show ?case
    using Cons.IH by simp
qed


section \<open>Example inputs\<close>

lemma haiku_instruction: "extract_instruction haiku_prompt = py ''Write a haiku.''"
  by (simp add: extract_instruction_def haiku_prompt_def USER_OPEN_def EOT_def py_def
      remove_templates_def strip_def is_space_def)

lemma strip_A: "remove_templates (py ''<|x|>A<|/x|>'') = py ''A''"
  and strip_B: "remove_templates (py ''<|x|>B<|/x|>'') = py ''B''"
  by (simp_all add: remove_templates_def strip_def is_space_def py_def)

lemma keys_distinct:
  "py ''prompt'' \<noteq> py ''chosen''" "py ''prompt'' \<noteq> py ''rejected''" "py ''prompt'' \<noteq> py ''results''"
  "py ''chosen'' \<noteq> py ''rejected''" "py ''chosen'' \<noteq> py ''results''" "py ''rejected'' \<noteq> py ''results''"
  by (simp_all add: py_def)

lemma haiku_is_record: "is_preference_record (haiku_record flag)"
  using keys_distinct
  by (simp add: is_preference_record_def haiku_record_def is_str_or_absent_def)

lemma haiku_clean: "has_clean_texts (haiku_record flag)"
  using keys_distinct
  by (simp add: has_clean_texts_def haiku_record_def text_of_def haiku_prompt_def)

lemma haiku_entry:
  "process_record tog (haiku_record flag) =
     Inr \<lparr>instruction =
            (if tog = (flag = 0) then placed (py ''Write a haiku.'') (py ''B'') (py ''A'')
             else placed (py ''Write a haiku.'') (py ''A'') (py ''B'')),
          input = [], system = SYSTEM,
          output_label = (if tog then py ''Output (a)'' else py ''Output (b)'')\<rparr>"
  using keys_distinct keys_distinct [symmetric]
  by (simp add: process_record_typed [OF haiku_is_record [unfolded haiku_record_def]]
      haiku_record_def dict_get_def text_of_def haiku_instruction strip_A strip_B)

lemma empty_is_record: "is_preference_record (JObj Map.empty)"
  and empty_clean: "has_clean_texts (JObj Map.empty)"
  by (simp_all add: is_preference_record_def is_str_or_absent_def has_clean_texts_def text_of_def)

lemma empty_entry:
  "process_record tog (JObj Map.empty) =
     Inr \<lparr>instruction = placed [] [] [], input = [], system = SYSTEM,
          output_label = (if tog then py ''Output (a)'' else py ''Output (b)'')\<rparr>"
  by (simp add: process_record_typed [OF empty_is_record] text_of_def dict_get_def
      extract_instruction_def remove_templates_def Let_def)

lemma strip_examples:
  \<open>strip (py ''{"id": 1}\<newline>'') = py ''{"id": 1}''\<close>
  \<open>strip (py ''{"id": 0}\<newline>'') = py ''{"id": 0}''\<close>
  \<open>strip (py ''{"id": 2}\<newline>'') = py ''{"id": 2}''\<close>
  \<open>strip (py ''  {bad\<newline>'') = py ''{bad''\<close>
  \<open>strip (py ''\<newline>'') = []\<close>
  \<open>strip (py ''{}\<newline>'') = py ''{}''\<close>
  \<open>strip (py ''[1, 2]\<newline>'') = py ''[1, 2]''\<close>
  \<open>strip (py ''{"chosen": 5}\<newline>'') = py ''{"chosen": 5}''\<close>
  \<open>strip (py ''{"prompt": "Write a haiku.", "chosen": 5}\<newline>'')
     = py ''{"prompt": "Write a haiku.", "chosen": 5}''\<close>
  by (simp_all add: strip_def is_space_def py_def)

lemma loads_examples:
  \<open>example_loads (py ''{"id": 1}'') = Inr (haiku_record 1)\<close>
  \<open>example_loads (py ''{"id": 0}'') = Inr (haiku_record 0)\<close>
  \<open>example_loads (py ''{"id": 2}'') = Inr two_span_record\<close>
  \<open>example_loads (py ''{bad'') = Inl JSONDecodeError\<close>
  \<open>example_loads (py ''{}'') = Inr (JObj Map.empty)\<close>
  \<open>example_loads (py ''[1, 2]'') = Inr (JArr [JInt 1, JInt 2])\<close>
  \<open>example_loads (py ''{"chosen": 5}'') = Inr (JObj [py ''chosen'' \<mapsto> JInt 5])\<close>
  \<open>example_loads (py ''{"prompt": "Write a haiku.", "chosen": 5}'')
     = Inr (JObj [py ''prompt'' \<mapsto> JStr (py ''Write a haiku.''), py ''chosen'' \<mapsto> JInt 5])\<close>
  by (simp_all add: example_loads_def py_def)

lemma nonblank_examples:
  \<open>py ''{"id": 1}'' \<noteq> []\<close> \<open>py ''{"id": 0}'' \<noteq> []\<close> \<open>py ''{"id": 2}'' \<noteq> []\<close>
  \<open>py ''{bad'' \<noteq> []\<close> \<open>py ''{}'' \<noteq> []\<close> \<open>py ''[1, 2]'' \<noteq> []\<close>
  \<open>py ''{"chosen": 5}'' \<noteq> []\<close>
  \<open>py ''{"prompt": "Write a haiku.", "chosen": 5}'' \<noteq> []\<close>
  by (simp_all add: py_def)

lemma example_kinds:
  \<open>well_formed_line example_loads (py ''{"id": 1}\<newline>'')\<close>
  \<open>well_formed_line example_loads (py ''{"id": 0}\<newline>'')\<close>
  \<open>well_formed_line example_loads (py ''{}\<newline>'')\<close>
  \<open>malformed_line example_loads (py ''  {bad\<newline>'')\<close>
  \<open>blank_line (py ''\<newline>'')\<close>
  by (simp_all add: well_formed_line_def malformed_line_def blank_line_def strip_examples
      loads_examples nonblank_examples haiku_is_record haiku_clean empty_is_record empty_clean)

lemma write_two:
  assumes "process_record t1 d1 = Inr e1" "is_preference_record d1" "has_clean_texts d1"
    and "process_record t2 d2 = Inr e2" "is_preference_record d2" "has_clean_texts d2"
  shows "write_lines [e1, e2] [] = Inr [json_dumps e1 @ [10], json_dumps e2 @ [10]]"
proof -
  have "clean (json_dumps e1)" "clean (json_dumps e2)"
    using assms by (auto intro: process_record_clean)
  then show ?thesis
    using write_lines_clean [of "[e1, e2]" "[]"] by simp
qed

lemma write_one:
  assumes "process_record t1 d1 = Inr e1" "is_preference_record d1" "has_clean_texts d1"
  shows "write_lines [e1] [] = Inr [json_dumps e1 @ [10]]"
proof -
  have "clean (json_dumps e1)"
    using assms by (auto intro: process_record_clean)
  then show ?thesis
    using write_lines_clean [of "[e1]" "[]"] by simp
qed

lemma example_run:
  "process_file example_loads example_lines =
     Inr \<lparr>output_data =
            [\<lparr>instruction = placed (py ''Write a haiku.'') (py ''A'') (py ''B''), input = [],
              system = SYSTEM, output_label = py ''Output (a)''\<rparr>,
             \<lparr>instruction = placed (py ''Write a haiku.'') (py ''A'') (py ''B''), input = [],
              system = SYSTEM, output_label = py ''Output (b)''\<rparr>],
          toggle = True, printed = [(2, py ''{bad'')],
          outfile =
            [json_dumps
               \<lparr>instruction = placed (py ''Write a haiku.'') (py ''A'') (py ''B''), input = [],
                system = SYSTEM, output_label = py ''Output (a)''\<rparr> @ [10],
             json_dumps
               \<lparr>instruction = placed (py ''Write a haiku.'') (py ''A'') (py ''B''), input = [],
                system = SYSTEM, output_label = py ''Output (b)''\<rparr> @ [10]]\<rparr>"
proof -
  have loop: "process_lines example_loads (enumerate 1 example_lines)
      \<lparr>output_data = [], toggle = True, printed = [], outfile = []\<rparr>
    = Inr \<lparr>output_data =
            [\<lparr>instruction = placed (py ''Write a haiku.'') (py ''A'') (py ''B''), input = [],
              system = SYSTEM, output_label = py ''Output (a)''\<rparr>,
             \<lparr>instruction = placed (py ''Write a haiku.'') (py ''A'') (py ''B''), input = [],
              system = SYSTEM, output_label = py ''Output (b)''\<rparr>],
          toggle = True, printed = [(2, py ''{bad'')], outfile = []\<rparr>"
    by (simp add: example_lines_def enumerate_eq_zip upt_rec [of 1]
        strip_examples loads_examples nonblank_examples haiku_entry)
  have "process_record True (haiku_record 1)
      = Inr \<lparr>instruction = placed (py ''Write a haiku.'') (py ''A'') (py ''B''), input = [],
              system = SYSTEM, output_label = py ''Output (a)''\<rparr>"
    "process_record False (haiku_record 0)
      = Inr \<lparr>instruction = placed (py ''Write a haiku.'') (py ''A'') (py ''B''), input = [],
              system = SYSTEM, output_label = py ''Output (b)''\<rparr>"
    by (simp_all add: haiku_entry)
  from write_two [OF this(1) haiku_is_record haiku_clean this(2) haiku_is_record haiku_clean] loop
  show ?thesis
    by (simp add: process_file_def)
qed

section \<open>Claims about the loop body and the run\<close>

text \<open>
  C3. The pair is swapped exactly when \<open>data.get('results', 1) == 0\<close> holds (Python's
  \<open>==\<close>): with \<open>results\<close> absent the default 1 leaves the pair as it is, and an int
  \<open>n\<close> swaps it exactly when \<open>n = 0\<close>. When it is swapped, the stripped text of the
  original \<open>rejected\<close> field stands where the chosen text goes (after \<open># Output (a):\<close>
  when the toggle is true, after \<open># Output (b):\<close> otherwise) and the stripped text of the
  original \<open>chosen\<close> field stands in the other position; when it is not swapped, it is the
  other way round.
\<close>

theorem pair_swapped_iff_results_zero:
  assumes "is_preference_record (JObj d)"
  shows "\<exists>e. process_record tog (JObj d) = Inr e
     \<and> output_label e = (if tog then py ''Output (a)'' else py ''Output (b)'')
     \<and> (let chosen_text = remove_templates (text_of (d (py ''chosen'')));
            rejected_text = remove_templates (text_of (d (py ''rejected'')));
            instr = extract_instruction (text_of (d (py ''prompt'')));
            swap = py_eq_int (dict_get d (py ''results'') (JInt 1)) 0
        in (swap \<longrightarrow> instruction e =
              (if tog then placed instr rejected_text chosen_text
               else placed instr chosen_text rejected_text))
         \<and> (\<not> swap \<longrightarrow> instruction e =
              (if tog then placed instr chosen_text rejected_text
               else placed instr rejected_text chosen_text))
         \<and> (d (py ''results'') = None \<longrightarrow> \<not> swap)
         \<and> (\<forall>n. d (py ''results'') = Some (JInt n) \<longrightarrow> (swap \<longleftrightarrow> n = 0)))"
  using assms
  by (cases tog) (auto simp: process_record_typed dict_get_def Let_def)

theorem pair_swapped_iff_results_zero_witness:
  "is_preference_record (haiku_record 0)
   \<and> process_record True (haiku_record 0)
       = Inr \<lparr>instruction = placed (py ''Write a haiku.'') (py ''B'') (py ''A''), input = [],
              system = SYSTEM, output_label = py ''Output (a)''\<rparr>
   \<and> py_eq_int (dict_get (\<lambda>k. case haiku_record 0 of JObj d \<Rightarrow> d k | _ \<Rightarrow> None)
          (py ''results'') (JInt 1)) 0"
proof -
  have r: "is_preference_record (haiku_record 0)"
    by (rule haiku_is_record)
  have z: "py_eq_int (dict_get (\<lambda>k. case haiku_record 0 of JObj d \<Rightarrow> d k | _ \<Rightarrow> None)
          (py ''results'') (JInt 1)) 0"
    by (simp add: haiku_record_def dict_get_def)
  from r pair_swapped_iff_results_zero [OF r [unfolded haiku_record_def], of True] z
  show ?thesis
    by (simp add: haiku_entry)
qed

text \<open>
  C1. In every run that reaches the end of the input, the \<open>output\<close> labels of the emitted
  records alternate, starting with \<open>Output (a)\<close> at the first record: the record at
  index \<open>i\<close> (from 0) carries \<open>Output (a)\<close> when \<open>i\<close> is even and \<open>Output (b)\<close>
  when it is odd. The toggle starts true and flips once per emitted record, so at the end
  it is true exactly when the number of records is even.
\<close>

theorem output_labels_alternate:
  assumes "process_file loads lines = Inr st"
  shows "(\<forall>i < length (output_data st).
            output_label (output_data st ! i)
              = (if even i then py ''Output (a)'' else py ''Output (b)''))
         \<and> toggle st = even (length (output_data st))"
proof -
  from assms obtain st' where st': "process_lines loads (enumerate 1 lines)
        \<lparr>output_data = [], toggle = True, printed = [], outfile = []\<rparr> = Inr st'"
    "st = st'\<lparr>outfile := map (\<lambda>e. json_dumps e @ [10]) (output_data st')\<rparr>"
    by (rule process_file_Inr)
  from process_lines_structure [OF st'(1)] have "\<exists>es. output_data st' = es
      \<and> toggle st' = even (length es)
      \<and> (\<forall>i < length es. \<exists>n raw data. (n, raw) \<in> set (enumerate 1 lines)
            \<and> loads (strip raw) = Inr data \<and> process_record (even i) data = Inr (es ! i))"
    by simp
  then have tog: "toggle st' = even (length (output_data st'))"
    and each: "\<forall>i < length (output_data st'). \<exists>data.
        process_record (even i) data = Inr (output_data st' ! i)"
    by blast+
  have "output_label (output_data st' ! i)
      = (if even i then py ''Output (a)'' else py ''Output (b)'')"
    if "i < length (output_data st')" for i
  proof -
    from each that obtain data where "process_record (even i) data = Inr (output_data st' ! i)"
      by blast
    then show ?thesis
      by (rule process_record_label)
  qed
  with tog show ?thesis
    unfolding st'(2) by simp
qed

theorem output_labels_alternate_witness:
  "\<exists>st. process_file example_loads example_lines = Inr st
     \<and> length (output_data st) = 2
     \<and> (\<forall>i < length (output_data st).
            output_label (output_data st ! i)
              = (if even i then py ''Output (a)'' else py ''Output (b)''))
     \<and> toggle st = even (length (output_data st))"
proof -
  note example_run
  moreover note output_labels_alternate [OF example_run]
  ultimately show ?thesis
    by simp
qed

text \<open>
  C2. Every emitted record comes from a line of the input that parsed to a record, and it
  holds the corrected chosen text (the stripped \<open>chosen\<close>, or the stripped \<open>rejected\<close>
  when the \<open>results\<close> flag equals 0) at the position that its \<open>output\<close> field names:
  after the line \<open># Output (a):\<close> when the field is \<open>Output (a)\<close>, after the line
  \<open># Output (b):\<close> when it is \<open>Output (b)\<close>; the other position holds the corrected
  rejected text. The record is a line of the output file.
\<close>

theorem labelled_position_holds_chosen:
  assumes "process_file loads lines = Inr st" and "e \<in> set (output_data st)"
  shows "\<exists>raw d. raw \<in> set lines \<and> loads (strip raw) = Inr (JObj d)
     \<and> is_preference_record (JObj d)
     \<and> (let instr = extract_instruction (text_of (d (py ''prompt'')));
            swap = py_eq_int (dict_get d (py ''results'') (JInt 1)) 0;
            chosen_text =
              remove_templates (text_of (d (if swap then py ''rejected'' else py ''chosen'')));
            rejected_text =
              remove_templates (text_of (d (if swap then py ''chosen'' else py ''rejected'')))
        in (output_label e = py ''Output (a)''
              \<and> instruction e = placed instr chosen_text rejected_text)
         \<or> (output_label e = py ''Output (b)''
              \<and> instruction e = placed instr rejected_text chosen_text))
     \<and> json_dumps e @ [10] \<in> set (outfile st)"
proof -
  from assms(1) obtain st' where st': "process_lines loads (enumerate 1 lines)
        \<lparr>output_data = [], toggle = True, printed = [], outfile = []\<rparr> = Inr st'"
    "st = st'\<lparr>outfile := map (\<lambda>e. json_dumps e @ [10]) (output_data st')\<rparr>"
    by (rule process_file_Inr)
  from process_lines_structure [OF st'(1)] have "\<exists>es. output_data st' = es
      \<and> (\<forall>i < length es. \<exists>n raw data. (n, raw) \<in> set (enumerate 1 lines)
            \<and> loads (strip raw) = Inr data \<and> process_record (even i) data = Inr (es ! i))"
    by simp
  then have each: "\<forall>i < length (output_data st'). \<exists>n raw data.
        (n, raw) \<in> set (enumerate 1 lines) \<and> loads (strip raw) = Inr data
        \<and> process_record (even i) data = Inr (output_data st' ! i)"
    by blast
  from assms(2) have mem: "e \<in> set (output_data st')"
    unfolding st'(2) by simp
  then obtain i where i: "i < length (output_data st')" "e = output_data st' ! i"
    by (auto simp: in_set_conv_nth)
  with each obtain n raw data where src: "(n, raw) \<in> set (enumerate 1 lines)"
    "loads (strip raw) = Inr data" "process_record (even i) data = Inr e"
    by blast
  from src(3) have rec: "is_preference_record data"
    using process_record_Inr_iff by blast
  then obtain d where d: "data = JObj d"
    by (cases data) (simp_all add: is_preference_record_def)
  from src(1) have raw: "raw \<in> set lines"
    by (auto simp: in_set_enumerate_eq)
  from src(3) rec d have e: "e =
    \<lparr>instruction =
           (let chosen_text = remove_templates (text_of (d (py ''chosen'')));
                rejected_text = remove_templates (text_of (d (py ''rejected'')));
                instr = extract_instruction (text_of (d (py ''prompt'')));
                swap = py_eq_int (dict_get d (py ''results'') (JInt 1)) 0
            in if even i = swap then placed instr rejected_text chosen_text
               else placed instr chosen_text rejected_text),
         input = [], system = SYSTEM,
         output_label = (if even i then py ''Output (a)'' else py ''Output (b)'')\<rparr>"
    by (simp add: process_record_typed)
  have placed_ok: "(let instr = extract_instruction (text_of (d (py ''prompt'')));
            swap = py_eq_int (dict_get d (py ''results'') (JInt 1)) 0;
            chosen_text =
              remove_templates (text_of (d (if swap then py ''rejected'' else py ''chosen'')));
            rejected_text =
              remove_templates (text_of (d (if swap then py ''chosen'' else py ''rejected'')))
        in (output_label e = py ''Output (a)''
              \<and> instruction e = placed instr chosen_text rejected_text)
         \<or> (output_label e = py ''Output (b)''
              \<and> instruction e = placed instr rejected_text chosen_text))"
    unfolding e
    by (cases "even i"; cases "py_eq_int (dict_get d (py ''results'') (JInt 1)) 0")
      (simp_all add: Let_def)
  from mem have "json_dumps e @ [10] \<in> set (outfile st)"
    unfolding st'(2) by simp
  with raw src(2) rec d placed_ok show ?thesis
    by blast
qed

theorem labelled_position_holds_chosen_witness:
  "process_file example_loads example_lines
     = Inr \<lparr>output_data =
            [\<lparr>instruction = placed (py ''Write a haiku.'') (py ''A'') (py ''B''), input = [],
              system = SYSTEM, output_label = py ''Output (a)''\<rparr>,
             \<lparr>instruction = placed (py ''Write a haiku.'') (py ''A'') (py ''B''), input = [],
              system = SYSTEM, output_label = py ''Output (b)''\<rparr>],
          toggle = True, printed = [(2, py ''{bad'')],
          outfile =
            [json_dumps
               \<lparr>instruction = placed (py ''Write a haiku.'') (py ''A'') (py ''B''), input = [],
                system = SYSTEM, output_label = py ''Output (a)''\<rparr> @ [10],
             json_dumps
               \<lparr>instruction = placed (py ''Write a haiku.'') (py ''A'') (py ''B''), input = [],
                system = SYSTEM, output_label = py ''Output (b)''\<rparr> @ [10]]\<rparr>
   \<and> (\<exists>raw d. raw \<in> set example_lines \<and> example_loads (strip raw) = Inr (JObj d)
     \<and> is_preference_record (JObj d)
     \<and> (let instr = extract_instruction (text_of (d (py ''prompt'')));
            swap = py_eq_int (dict_get d (py ''results'') (JInt 1)) 0;
            chosen_text =
              remove_templates (text_of (d (if swap then py ''rejected'' else py ''chosen'')));
            rejected_text =
              remove_templates (text_of (d (if swap then py ''chosen'' else py ''rejected'')))
        in (py ''Output (b)'' = py ''Output (a)''
              \<and> placed (py ''Write a haiku.'') (py ''A'') (py ''B'')
                   = placed instr chosen_text rejected_text)
         \<or> (py ''Output (b)'' = py ''Output (b)''
              \<and> placed (py ''Write a haiku.'') (py ''A'') (py ''B'')
                   = placed instr rejected_text chosen_text)))"
  using labelled_position_holds_chosen [OF example_run,
      of "\<lparr>instruction = placed (py ''Write a haiku.'') (py ''A'') (py ''B''), input = [],
              system = SYSTEM, output_label = py ''Output (b)''\<rparr>"]
    example_run
  by simp

section \<open>Claims about files of blank, malformed and well-formed lines\<close>

lemma filter_enumerate_none:
  "\<forall>x \<in> set xs. \<not> P x \<Longrightarrow> filter (\<lambda>(n, x). P x) (enumerate n xs) = []"
  by (induction xs arbitrary: n) auto

lemma one_malformed_shape:
  assumes "malformed_line loads bad" and "\<forall>raw \<in> set (pre @ post). well_formed_line loads raw"
  shows "filter (well_formed_line loads) (pre @ [bad] @ post) = pre @ post"
    and "map (\<lambda>(n, raw). (n, strip raw))
          (filter (\<lambda>(n, raw). malformed_line loads raw) (enumerate 1 (pre @ [bad] @ post)))
        = [(length pre + 1, strip bad)]"
proof -
  from assms(2) have wf: "\<forall>raw \<in> set pre. well_formed_line loads raw"
    "\<forall>raw \<in> set post. well_formed_line loads raw"
    by simp_all
  from assms(1) have nb: "\<not> well_formed_line loads bad"
    using line_kinds_exclusive(2) by blast
  from wf have "filter (well_formed_line loads) pre = pre"
    "filter (well_formed_line loads) post = post"
    by (simp_all add: filter_id_conv)
  with nb show "filter (well_formed_line loads) (pre @ [bad] @ post) = pre @ post"
    by simp
  from wf have nm: "\<forall>raw \<in> set pre. \<not> malformed_line loads raw"
    "\<forall>raw \<in> set post. \<not> malformed_line loads raw"
    using line_kinds_exclusive(3) by blast+
  have "enumerate 1 (pre @ [bad] @ post)
      = enumerate 1 pre @ [(length pre + 1, bad)] @ enumerate (length pre + 2) post"
    by (simp add: enumerate_append_eq)
  then show "map (\<lambda>(n, raw). (n, strip raw))
          (filter (\<lambda>(n, raw). malformed_line loads raw) (enumerate 1 (pre @ [bad] @ post)))
        = [(length pre + 1, strip bad)]"
    using assms(1) filter_enumerate_none [OF nm(1)] filter_enumerate_none [OF nm(2)]
    by simp
qed

text \<open>
  C7 (as amended). In a file whose every line is blank, malformed or well-formed (a record
  with clean texts), a malformed line is not fatal: the run returns, each malformed line
  gives one printed warning with its line number (from 1) and its text as stripped of
  surrounding whitespace, and no record; each well-formed line gives one record, in the
  order of these lines, which is also the content of the output file. In particular one
  malformed line among N well-formed lines gives exactly N records and one warning.
\<close>

theorem malformed_lines_are_skipped:
  assumes "\<forall>raw \<in> set lines.
     blank_line raw \<or> malformed_line loads raw \<or> well_formed_line loads raw"
  shows "\<exists>st. process_file loads lines = Inr st
     \<and> length (output_data st) = length (filter (well_formed_line loads) lines)
     \<and> (\<forall>i < length (output_data st). \<exists>d.
           loads (strip (filter (well_formed_line loads) lines ! i)) = Inr (JObj d)
           \<and> process_record (even i) (JObj d) = Inr (output_data st ! i))
     \<and> printed st = map (\<lambda>(n, raw). (n, strip raw))
          (filter (\<lambda>(n, raw). malformed_line loads raw) (enumerate 1 lines))
     \<and> outfile st = map (\<lambda>e. json_dumps e @ [10]) (output_data st)
     \<and> (\<forall>pre bad post.
           lines = pre @ [bad] @ post \<and> malformed_line loads bad
             \<and> (\<forall>raw \<in> set (pre @ post). well_formed_line loads raw) \<longrightarrow>
           length (output_data st) = length pre + length post
           \<and> filter (well_formed_line loads) lines = pre @ post
           \<and> printed st = [(length pre + 1, strip bad)])"
proof -
  from process_file_acceptable [OF assms] obtain st where st:
    "process_file loads lines = Inr st"
    "length (output_data st) = length (filter (well_formed_line loads) lines)"
    "printed st = map (\<lambda>(n, raw). (n, strip raw))
          (filter (\<lambda>(n, raw). malformed_line loads raw) (enumerate 1 lines))"
    "outfile st = map (\<lambda>e. json_dumps e @ [10]) (output_data st)"
    "\<forall>i < length (output_data st). \<exists>d.
           loads (strip (filter (well_formed_line loads) lines ! i)) = Inr (JObj d)
           \<and> is_preference_record (JObj d)
           \<and> process_record (even i) (JObj d) = Inr (output_data st ! i)"
    by blast
  have special: "length (output_data st) = length pre + length post
           \<and> filter (well_formed_line loads) lines = pre @ post
           \<and> printed st = [(length pre + 1, strip bad)]"
    if "lines = pre @ [bad] @ post \<and> malformed_line loads bad
             \<and> (\<forall>raw \<in> set (pre @ post). well_formed_line loads raw)" for pre bad post
  proof -
    from that have l: "lines = pre @ [bad] @ post" and b: "malformed_line loads bad"
      and w: "\<forall>raw \<in> set (pre @ post). well_formed_line loads raw"
      by blast+
    from one_malformed_shape [OF b w] st(2,3) show ?thesis
      unfolding l by simp
  qed
  from st(5) have "\<forall>i < length (output_data st). \<exists>d.
           loads (strip (filter (well_formed_line loads) lines ! i)) = Inr (JObj d)
           \<and> process_record (even i) (JObj d) = Inr (output_data st ! i)"
    by blast
  with st(1-4) special show ?thesis
    by blast
qed

theorem malformed_lines_are_skipped_witness:
  \<open>well_formed_line example_loads (py ''{"id": 1}\<newline>'')
   \<and> malformed_line example_loads (py ''  {bad\<newline>'')
   \<and> blank_line (py ''\<newline>'')
   \<and> well_formed_line example_loads (py ''{"id": 0}\<newline>'')
   \<and> process_file example_loads example_lines
      = Inr \<lparr>output_data =
            [\<lparr>instruction = placed (py ''Write a haiku.'') (py ''A'') (py ''B''), input = [],
              system = SYSTEM, output_label = py ''Output (a)''\<rparr>,
             \<lparr>instruction = placed (py ''Write a haiku.'') (py ''A'') (py ''B''), input = [],
              system = SYSTEM, output_label = py ''Output (b)''\<rparr>],
          toggle = True, printed = [(2, py ''{bad'')],
          outfile =
            [json_dumps
               \<lparr>instruction = placed (py ''Write a haiku.'') (py ''A'') (py ''B''), input = [],
                system = SYSTEM, output_label = py ''Output (a)''\<rparr> @ [10],
             json_dumps
               \<lparr>instruction = placed (py ''Write a haiku.'') (py ''A'') (py ''B''), input = [],
                system = SYSTEM, output_label = py ''Output (b)''\<rparr> @ [10]]\<rparr>\<close>
proof -
  have a: "\<forall>raw \<in> set example_lines.
     blank_line raw \<or> malformed_line example_loads raw \<or> well_formed_line example_loads raw"
    by (simp add: example_lines_def example_kinds)
  from malformed_lines_are_skipped [OF a] example_kinds example_run show ?thesis
    by simp
qed

text \<open>
  C7 (as stated) fails. A line that is valid JSON but not a dict, here \<open>[1, 2]\<close>, is
  not malformed, and the run of a file with one malformed line and this line raises
  \<open>AttributeError\<close> and emits nothing. The warning for the malformed line
  \<open>  {bad\<close> gives the stripped text \<open>{bad\<close>, not the raw line.
\<close>

theorem valid_json_line_raises:
  \<open>example_loads (strip (py ''  {bad\<newline>'')) = Inl JSONDecodeError
   \<and> example_loads (strip (py ''[1, 2]\<newline>'')) = Inr (JArr [JInt 1, JInt 2])
   \<and> process_file example_loads [py ''  {bad\<newline>'', py ''[1, 2]\<newline>''] = Inl AttributeError
   \<and> process_file example_loads [py ''  {bad\<newline>'']
       = Inr \<lparr>output_data = [], toggle = True, printed = [(1, py ''{bad'')], outfile = []\<rparr>
   \<and> py ''{bad'' \<noteq> py ''  {bad\<newline>''\<close>
proof -
  have \<open>py ''{bad'' \<noteq> py ''  {bad\<newline>''\<close>
    by (simp add: py_def)
  then show ?thesis
    by (simp add: process_file_def enumerate_eq_zip upt_rec [of 1] strip_examples
        loads_examples nonblank_examples process_record_def)
qed

lemma default_is_empty_string:
  assumes "is_preference_record (JObj d)"
    and "k \<in> {py ''prompt'', py ''chosen'', py ''rejected''}" and "d k = None"
  shows "process_record tog (JObj (d(k \<mapsto> JStr []))) = process_record tog (JObj d)"
proof -
  from assms have "is_preference_record (JObj (d(k \<mapsto> JStr [])))"
    by (auto simp: is_preference_record_def is_str_or_absent_def)
  moreover from assms(3) have "text_of ((d(k \<mapsto> JStr [])) k') = text_of (d k')" for k'
    by (auto simp: text_of_def)
  moreover from assms(2) have
    "dict_get (d(k \<mapsto> JStr [])) (py ''results'') (JInt 1) = dict_get d (py ''results'') (JInt 1)"
    using keys_distinct by (auto simp: dict_get_def)
  ultimately show ?thesis
    using assms(1) by (simp add: process_record_typed del: fun_upd_apply)
qed

text \<open>
  C10 (as amended). In a file whose every line is blank, malformed or well-formed (it parses
  to a dict in which each of \<open>prompt\<close>, \<open>chosen\<close> and \<open>rejected\<close> is absent or a
  string without a lone surrogate), the reformatter never raises: it writes one record for
  each well-formed line, and where such a line lacks one of the three keys the record is
  the one that the same dict with this key set to the empty string gives.
\<close>

theorem missing_fields_default_to_empty:
  assumes "\<forall>raw \<in> set lines.
     blank_line raw \<or> malformed_line loads raw \<or> well_formed_line loads raw"
  shows "\<exists>st. process_file loads lines = Inr st
     \<and> length (output_data st) = length (filter (well_formed_line loads) lines)
     \<and> outfile st = map (\<lambda>e. json_dumps e @ [10]) (output_data st)
     \<and> (\<forall>i < length (output_data st). \<exists>d.
           loads (strip (filter (well_formed_line loads) lines ! i)) = Inr (JObj d)
           \<and> process_record (even i) (JObj d) = Inr (output_data st ! i)
           \<and> (\<forall>k \<in> {py ''prompt'', py ''chosen'', py ''rejected''}.
                 d k = None \<longrightarrow>
                 process_record (even i) (JObj (d(k \<mapsto> JStr []))) = Inr (output_data st ! i)))"
proof -
  from process_file_acceptable [OF assms] obtain st where st:
    "process_file loads lines = Inr st"
    "length (output_data st) = length (filter (well_formed_line loads) lines)"
    "outfile st = map (\<lambda>e. json_dumps e @ [10]) (output_data st)"
    "\<forall>i < length (output_data st). \<exists>d.
           loads (strip (filter (well_formed_line loads) lines ! i)) = Inr (JObj d)
           \<and> is_preference_record (JObj d)
           \<and> process_record (even i) (JObj d) = Inr (output_data st ! i)"
    by blast
  have "\<exists>d. loads (strip (filter (well_formed_line loads) lines ! i)) = Inr (JObj d)
           \<and> process_record (even i) (JObj d) = Inr (output_data st ! i)
           \<and> (\<forall>k \<in> {py ''prompt'', py ''chosen'', py ''rejected''}.
                 d k = None \<longrightarrow>
                 process_record (even i) (JObj (d(k \<mapsto> JStr []))) = Inr (output_data st ! i))"
    if "i < length (output_data st)" for i
  proof -
    from st(4) that obtain d where d:
      "loads (strip (filter (well_formed_line loads) lines ! i)) = Inr (JObj d)"
      "is_preference_record (JObj d)"
      "process_record (even i) (JObj d) = Inr (output_data st ! i)"
      by blast
    have "process_record (even i) (JObj (d(k \<mapsto> JStr []))) = Inr (output_data st ! i)"
      if "k \<in> {py ''prompt'', py ''chosen'', py ''rejected''}" "d k = None" for k
      using default_is_empty_string [OF d(2) that] d(3) by simp
    with d(1,3) show ?thesis
      by blast
  qed
  with st(1-3) show ?thesis
    by blast
qed

theorem missing_fields_default_to_empty_witness:
  \<open>well_formed_line example_loads (py ''{}\<newline>'')
   \<and> example_loads (strip (py ''{}\<newline>'')) = Inr (JObj Map.empty)
   \<and> process_file example_loads [py ''{}\<newline>'']
       = Inr \<lparr>output_data = [\<lparr>instruction = placed [] [] [], input = [], system = SYSTEM,
                               output_label = py ''Output (a)''\<rparr>],
              toggle = False, printed = [],
              outfile = [json_dumps \<lparr>instruction = placed [] [] [], input = [], system = SYSTEM,
                               output_label = py ''Output (a)''\<rparr> @ [10]]\<rparr>\<close>
proof -
  have a: \<open>\<forall>raw \<in> set [py ''{}\<newline>''].
     blank_line raw \<or> malformed_line example_loads raw \<or> well_formed_line example_loads raw\<close>
    by (simp add: example_kinds)
  have b: \<open>example_loads (strip (py ''{}\<newline>'')) = Inr (JObj Map.empty)\<close>
    by (simp add: strip_examples loads_examples)
  have e: "process_record True (JObj Map.empty)
      = Inr \<lparr>instruction = placed [] [] [], input = [], system = SYSTEM,
             output_label = py ''Output (a)''\<rparr>"
    by (simp add: empty_entry)
  have run: \<open>process_file example_loads [py ''{}\<newline>'']
       = Inr \<lparr>output_data = [\<lparr>instruction = placed [] [] [], input = [], system = SYSTEM,
                               output_label = py ''Output (a)''\<rparr>],
              toggle = False, printed = [],
              outfile = [json_dumps \<lparr>instruction = placed [] [] [], input = [], system = SYSTEM,
                               output_label = py ''Output (a)''\<rparr> @ [10]]\<rparr>\<close>
    using write_one [OF e empty_is_record empty_clean]
    by (simp add: process_file_def enumerate_eq_zip strip_examples loads_examples
        nonblank_examples empty_entry)
  from missing_fields_default_to_empty [OF a] example_kinds(3) b run show ?thesis
    by simp
qed

text \<open>
  C10 (as stated) fails: the line \<open>{"chosen": 5}\<close> is valid JSON and lacks the
  \<open>prompt\<close> key, and \<open>re.sub\<close> raises \<open>TypeError\<close> on the number, which nothing
  catches.
\<close>

theorem mistyped_field_raises:
  \<open>example_loads (strip (py ''{"chosen": 5}\<newline>'')) = Inr (JObj [py ''chosen'' \<mapsto> JInt 5])
   \<and> [py ''chosen'' \<mapsto> JInt 5] (py ''prompt'') = None
   \<and> process_file example_loads [py ''{"chosen": 5}\<newline>''] = Inl TypeError\<close>
  using keys_distinct
  by (simp add: process_file_def enumerate_eq_zip strip_examples loads_examples nonblank_examples
      process_record_def dict_get_def)

lemma two_span_is_record: "is_preference_record two_span_record"
  and two_span_clean: "has_clean_texts two_span_record"
  using keys_distinct
  by (simp_all add: is_preference_record_def is_str_or_absent_def has_clean_texts_def
      text_of_def two_span_record_def USER_OPEN_def EOT_def)

lemma two_span_first:
  "\<not> sublist USER_OPEN (py ''...'' @ butlast USER_OPEN)"
  "\<not> sublist EOT (py '' A '' @ butlast EOT)"
  by (simp_all add: USER_OPEN_def EOT_def py_def sublist_code(3))

lemma two_span_entry:
  "process_record tog two_span_record =
     Inr \<lparr>instruction = placed (py ''A'') [] [], input = [], system = SYSTEM,
          output_label = (if tog then py ''Output (a)'' else py ''Output (b)'')\<rparr>"
proof -
  have "remove_templates (py '' A '') = py ''A''"
    by (simp add: remove_templates_def strip_def is_space_def py_def)
  then have "extract_instruction
      (py ''...'' @ USER_OPEN @ py '' A '' @ EOT @ USER_OPEN @ py ''B'' @ EOT) = py ''A''"
    using re_search_user_first [OF two_span_first, of "USER_OPEN @ py ''B'' @ EOT"]
    by (simp add: extract_instruction_def)
  then show ?thesis
    using keys_distinct keys_distinct [symmetric]
    by (simp add: process_record_typed [OF two_span_is_record [unfolded two_span_record_def]]
        two_span_record_def dict_get_def text_of_def remove_templates_def Let_def)
qed

lemma no_span_in_plain_text:
  "\<forall>g. \<not> sublist (USER_OPEN @ g @ EOT) []"
  "\<forall>g. \<not> sublist (USER_OPEN @ g @ EOT) (py ''Write a haiku.'')"
proof -
  have gen: "\<not> sublist (USER_OPEN @ g @ EOT) t" if "60 \<notin> set t" for g t
  proof
    assume "sublist (USER_OPEN @ g @ EOT) t"
    then have "set (USER_OPEN @ g @ EOT) \<subseteq> set t"
      by (rule set_mono_sublist)
    moreover have "60 \<in> set USER_OPEN"
      by (simp add: USER_OPEN_def py_def)
    ultimately show False
      using that by auto
  qed
  show "\<forall>g. \<not> sublist (USER_OPEN @ g @ EOT) []"
    by (intro allI gen) simp
  show "\<forall>g. \<not> sublist (USER_OPEN @ g @ EOT) (py ''Write a haiku.'')"
    by (intro allI gen) (simp add: py_def)
qed

text \<open>
  C8 (as amended). In a file whose every line is blank, malformed or well-formed, every
  well-formed line gets its record, written to the output file, and the instruction in the
  record (the text between the rubric and the line \<open># Output (a):\<close>) is empty when the
  prompt holds no span (the user-turn opening marker, any text, the turn-termination
  marker), and otherwise is the stripped text of the first span: the text after the
  leftmost opening marker, up to the first termination marker after it; what follows that
  marker, further spans included, is not read.
\<close>

theorem instruction_from_first_span:
  assumes "\<forall>raw \<in> set lines.
     blank_line raw \<or> malformed_line loads raw \<or> well_formed_line loads raw"
  shows "\<exists>st. process_file loads lines = Inr st
     \<and> length (output_data st) = length (filter (well_formed_line loads) lines)
     \<and> outfile st = map (\<lambda>e. json_dumps e @ [10]) (output_data st)
     \<and> (\<forall>i < length (output_data st). \<exists>d.
           loads (strip (filter (well_formed_line loads) lines ! i)) = Inr (JObj d)
           \<and> (let prompt = text_of (d (py ''prompt''));
                  chosen_text = remove_templates (text_of (d (py ''chosen'')));
                  rejected_text = remove_templates (text_of (d (py ''rejected'')));
                  swap = py_eq_int (dict_get d (py ''results'') (JInt 1)) 0;
                  a_text = (if even i = swap then rejected_text else chosen_text);
                  b_text = (if even i = swap then chosen_text else rejected_text)
              in ((\<forall>g. \<not> sublist (USER_OPEN @ g @ EOT) prompt) \<longrightarrow>
                    instruction (output_data st ! i) = placed [] a_text b_text)
               \<and> (\<forall>pre g post.
                     prompt = pre @ USER_OPEN @ g @ EOT @ post
                       \<and> \<not> sublist USER_OPEN (pre @ butlast USER_OPEN)
                       \<and> \<not> sublist EOT (g @ butlast EOT) \<longrightarrow>
                     instruction (output_data st ! i)
                       = placed (remove_templates g) a_text b_text)))"
proof -
  from process_file_acceptable [OF assms] obtain st where st:
    "process_file loads lines = Inr st"
    "length (output_data st) = length (filter (well_formed_line loads) lines)"
    "outfile st = map (\<lambda>e. json_dumps e @ [10]) (output_data st)"
    "\<forall>i < length (output_data st). \<exists>d.
           loads (strip (filter (well_formed_line loads) lines ! i)) = Inr (JObj d)
           \<and> is_preference_record (JObj d)
           \<and> process_record (even i) (JObj d) = Inr (output_data st ! i)"
    by blast
  have "\<exists>d. loads (strip (filter (well_formed_line loads) lines ! i)) = Inr (JObj d)
           \<and> (let prompt = text_of (d (py ''prompt''));
                  chosen_text = remove_templates (text_of (d (py ''chosen'')));
                  rejected_text = remove_templates (text_of (d (py ''rejected'')));
                  swap = py_eq_int (dict_get d (py ''results'') (JInt 1)) 0;
                  a_text = (if even i = swap then rejected_text else chosen_text);
                  b_text = (if even i = swap then chosen_text else rejected_text)
              in ((\<forall>g. \<not> sublist (USER_OPEN @ g @ EOT) prompt) \<longrightarrow>
                    instruction (output_data st ! i) = placed [] a_text b_text)
               \<and> (\<forall>pre g post.
                     prompt = pre @ USER_OPEN @ g @ EOT @ post
                       \<and> \<not> sublist USER_OPEN (pre @ butlast USER_OPEN)
                       \<and> \<not> sublist EOT (g @ butlast EOT) \<longrightarrow>
                     instruction (output_data st ! i)
                       = placed (remove_templates g) a_text b_text))"
    if "i < length (output_data st)" for i
  proof -
    from st(4) that obtain d where d:
      "loads (strip (filter (well_formed_line loads) lines ! i)) = Inr (JObj d)"
      "is_preference_record (JObj d)"
      "process_record (even i) (JObj d) = Inr (output_data st ! i)"
      by blast
    define prompt where "prompt = text_of (d (py ''prompt''))"
    define a_text where "a_text =
      (if even i = py_eq_int (dict_get d (py ''results'') (JInt 1)) 0
       then remove_templates (text_of (d (py ''rejected'')))
       else remove_templates (text_of (d (py ''chosen''))))"
    define b_text where "b_text =
      (if even i = py_eq_int (dict_get d (py ''results'') (JInt 1)) 0
       then remove_templates (text_of (d (py ''chosen'')))
       else remove_templates (text_of (d (py ''rejected''))))"
    have "Inr (output_data st ! i) = process_record (even i) (JObj d)"
      by (rule d(3) [symmetric])
    also note process_record_typed [OF d(2)]
    finally have ins: "instruction (output_data st ! i)
        = placed (extract_instruction prompt) a_text b_text"
      unfolding prompt_def a_text_def b_text_def
      by (simp add: Let_def)
    have none: "instruction (output_data st ! i) = placed [] a_text b_text"
      if "\<forall>g. \<not> sublist (USER_OPEN @ g @ EOT) prompt"
      using re_search_user_None [OF that] ins by (simp add: extract_instruction_def)
    have first: "instruction (output_data st ! i) = placed (remove_templates g) a_text b_text"
      if "prompt = pre @ USER_OPEN @ g @ EOT @ post
                       \<and> \<not> sublist USER_OPEN (pre @ butlast USER_OPEN)
                       \<and> \<not> sublist EOT (g @ butlast EOT)" for pre g post
    proof -
      from that have "re_search_user prompt = Some g"
        using re_search_user_first [of pre g post] by simp
      with ins show ?thesis
        by (simp add: extract_instruction_def)
    qed
    from none first have "(\<forall>g. \<not> sublist (USER_OPEN @ g @ EOT) prompt) \<longrightarrow>
                    instruction (output_data st ! i) = placed [] a_text b_text"
      "\<forall>pre g post.
                     prompt = pre @ USER_OPEN @ g @ EOT @ post
                       \<and> \<not> sublist USER_OPEN (pre @ butlast USER_OPEN)
                       \<and> \<not> sublist EOT (g @ butlast EOT) \<longrightarrow>
                     instruction (output_data st ! i)
                       = placed (remove_templates g) a_text b_text"
      by blast+
    then show ?thesis
      unfolding prompt_def a_text_def b_text_def Let_def using d(1) by blast
  qed
  with st(1-3) show ?thesis
    by blast
qed

theorem instruction_from_first_span_witness:
  \<open>well_formed_line example_loads (py ''{"id": 2}\<newline>'')
   \<and> well_formed_line example_loads (py ''{}\<newline>'')
   \<and> example_loads (strip (py ''{"id": 2}\<newline>'')) = Inr two_span_record
   \<and> example_loads (strip (py ''{}\<newline>'')) = Inr (JObj Map.empty)
   \<and> \<not> sublist USER_OPEN (py ''...'' @ butlast USER_OPEN)
   \<and> \<not> sublist EOT (py '' A '' @ butlast EOT)
   \<and> (\<forall>g. \<not> sublist (USER_OPEN @ g @ EOT) [])
   \<and> process_file example_loads [py ''{"id": 2}\<newline>'', py ''{}\<newline>'']
       = Inr \<lparr>output_data =
            [\<lparr>instruction = placed (py ''A'') [] [], input = [], system = SYSTEM,
              output_label = py ''Output (a)''\<rparr>,
             \<lparr>instruction = placed [] [] [], input = [], system = SYSTEM,
              output_label = py ''Output (b)''\<rparr>],
          toggle = True, printed = [],
          outfile =
            [json_dumps \<lparr>instruction = placed (py ''A'') [] [], input = [], system = SYSTEM,
              output_label = py ''Output (a)''\<rparr> @ [10],
             json_dumps \<lparr>instruction = placed [] [] [], input = [], system = SYSTEM,
              output_label = py ''Output (b)''\<rparr> @ [10]]\<rparr>\<close>
proof -
  have w: \<open>well_formed_line example_loads (py ''{"id": 2}\<newline>'')\<close>
    \<open>well_formed_line example_loads (py ''{}\<newline>'')\<close>
    by (simp_all add: well_formed_line_def strip_examples loads_examples nonblank_examples
        two_span_is_record two_span_clean empty_is_record empty_clean)
  then have a: \<open>\<forall>raw \<in> set [py ''{"id": 2}\<newline>'', py ''{}\<newline>''].
     blank_line raw \<or> malformed_line example_loads raw \<or> well_formed_line example_loads raw\<close>
    by simp
  have l: \<open>example_loads (strip (py ''{"id": 2}\<newline>'')) = Inr two_span_record\<close>
    \<open>example_loads (strip (py ''{}\<newline>'')) = Inr (JObj Map.empty)\<close>
    by (simp_all add: strip_examples loads_examples)
  have e: "process_record True two_span_record
      = Inr \<lparr>instruction = placed (py ''A'') [] [], input = [], system = SYSTEM,
              output_label = py ''Output (a)''\<rparr>"
    "process_record False (JObj Map.empty)
      = Inr \<lparr>instruction = placed [] [] [], input = [], system = SYSTEM,
              output_label = py ''Output (b)''\<rparr>"
    by (simp_all add: two_span_entry empty_entry)
  have run: \<open>process_file example_loads [py ''{"id": 2}\<newline>'', py ''{}\<newline>'']
       = Inr \<lparr>output_data =
            [\<lparr>instruction = placed (py ''A'') [] [], input = [], system = SYSTEM,
              output_label = py ''Output (a)''\<rparr>,
             \<lparr>instruction = placed [] [] [], input = [], system = SYSTEM,
              output_label = py ''Output (b)''\<rparr>],
          toggle = True, printed = [],
          outfile =
            [json_dumps \<lparr>instruction = placed (py ''A'') [] [], input = [], system = SYSTEM,
              output_label = py ''Output (a)''\<rparr> @ [10],
             json_dumps \<lparr>instruction = placed [] [] [], input = [], system = SYSTEM,
              output_label = py ''Output (b)''\<rparr> @ [10]]\<rparr>\<close>
    using write_two [OF e(1) two_span_is_record two_span_clean e(2) empty_is_record empty_clean]
    by (simp add: process_file_def enumerate_eq_zip upt_rec [of 1] strip_examples loads_examples
        nonblank_examples two_span_entry empty_entry)
  from instruction_from_first_span [OF a] w l two_span_first no_span_in_plain_text(1) run
  show ?thesis
    by simp
qed

text \<open>
  C8 (as stated) fails: the prompt \<open>Write a haiku.\<close> holds no span, but the record is
  not emitted when another field is not a string: here \<open>chosen\<close> is the number 5 and
  the run raises \<open>TypeError\<close>.
\<close>

theorem spanless_record_not_emitted:
  \<open>example_loads (strip (py ''{"prompt": "Write a haiku.", "chosen": 5}\<newline>''))
     = Inr (JObj [py ''prompt'' \<mapsto> JStr (py ''Write a haiku.''), py ''chosen'' \<mapsto> JInt 5])
   \<and> (\<forall>g. \<not> sublist (USER_OPEN @ g @ EOT) (py ''Write a haiku.''))
   \<and> process_file example_loads [py ''{"prompt": "Write a haiku.", "chosen": 5}\<newline>'']
       = Inl TypeError\<close>
  using keys_distinct keys_distinct [symmetric] no_span_in_plain_text(2)
  by (simp add: process_file_def enumerate_eq_zip strip_examples loads_examples nonblank_examples
      process_record_def dict_get_def)

section \<open>Properties of the benchmark scorer\<close>

lemma batch_scores_Inr:
  "batch_scores rc rr = Inr (cb, rb) \<Longrightarrow> cb = scores_of rc \<and> rb = scores_of rr"
  by (induction rc rr rule: batch_scores.induct) auto

lemma run_inference_results:
  "run_inference batches st = Inr st' \<Longrightarrow>
     results st' = results st
        @ map (\<lambda>(chosen, rejected). if chosen > rejected then 1 else 0) (scored_pairs batches)
     \<and> scores_chosen st' = scores_chosen st @ concat (map (\<lambda>(rc, rr). scores_of rc) batches)
     \<and> scores_rejected st' = scores_rejected st @ concat (map (\<lambda>(rc, rr). scores_of rr) batches)"
proof (induction batches st rule: run_inference.induct)
  case (1 st)
  then show ?case by (simp add: scored_pairs_def)
next
  case (2 rewards_chosen rewards_rejected batches st)
  from "2.prems" obtain cb rb where b: "batch_scores rewards_chosen rewards_rejected = Inr (cb, rb)"
    by (auto split: sum.splits)
  then have eq: "cb = scores_of rewards_chosen" "rb = scores_of rewards_rejected"
    using batch_scores_Inr by blast+
  from "2.prems" b have "run_inference batches
      (st\<lparr>results := results st
             @ map (\<lambda>(chosen, rejected). if chosen > rejected then 1 else 0) (zip cb rb),
          scores_chosen := scores_chosen st @ cb,
          scores_rejected := scores_rejected st @ rb\<rparr>) = Inr st'"
    by simp
  from "2.IH" [OF b refl this] eq show ?case
    by (simp add: scored_pairs_def)
qed

lemma sum_indicators:
  "sum_list (map (\<lambda>(chosen, rejected). if chosen > rejected then 1 else (0::nat)) ps)
     = length (filter (\<lambda>(chosen, rejected). chosen > rejected) ps)"
  by (induction ps) auto

lemma main_Inr:
  assumes "main a batches = Inr w"
  obtains st where
    "run_inference batches \<lparr>results = [], scores_chosen = [], scores_rejected = []\<rparr> = Inr st"
    "results st \<noteq> []"
    "snd (summary_file w) =
       \<lparr>accuracy = real (sum_list (results st)) / real (length (results st)),
        num_prompts = length (results st), model = arg_model a,
        tokenizer = (case arg_tokenizer a of None \<Rightarrow> arg_model a
                     | Some t \<Rightarrow> if t = [] then arg_model a else t),
        chat_template = arg_chat_template a\<rparr>"
  using assms
  by (auto simp: main_def Let_def split: sum.splits if_splits)

lemma main_counts:
  assumes "main a batches = Inr w"
  shows "num_prompts (snd (summary_file w)) = length (scored_pairs batches)
     \<and> scored_pairs batches \<noteq> []"
proof -
  from assms obtain st where
    st: "run_inference batches \<lparr>results = [], scores_chosen = [], scores_rejected = []\<rparr> = Inr st"
      "results st \<noteq> []"
      "snd (summary_file w) =
       \<lparr>accuracy = real (sum_list (results st)) / real (length (results st)),
        num_prompts = length (results st), model = arg_model a,
        tokenizer = (case arg_tokenizer a of None \<Rightarrow> arg_model a
                     | Some t \<Rightarrow> if t = [] then arg_model a else t),
        chat_template = arg_chat_template a\<rparr>"
    by (rule main_Inr)
  from run_inference_results [OF st(1)] have
    r: "results st = map (\<lambda>(chosen, rejected). if chosen > rejected then 1 else 0)
          (scored_pairs batches)"
    by simp
  have "length (results st) = length (scored_pairs batches)"
    unfolding r by simp
  moreover from st(2) have "scored_pairs batches \<noteq> []"
    unfolding r by simp
  ultimately show ?thesis
    using st(3) by simp
qed

lemma example_main:
  "main example_args example_batches =
     Inr \<lparr>summary_file =
            (py ''results/'' @ py ''rm'' @ py ''.json'',
             \<lparr>accuracy = 1 / 2, num_prompts = 2, model = py ''rm'', tokenizer = py ''rm'',
              chat_template = None\<rparr>),
          all_file =
            Some (py ''results/'' @ py ''rm'' @ py ''_all.jsonl'',
              [\<lparr>chosen = [0.9, 0.1], rejected = [0.2, 0.8]\<rparr>,
               \<lparr>chosen = [0.9, 0.1], rejected = [0.2, 0.8]\<rparr>])\<rparr>"
  by (simp add: main_def example_args_def example_batches_def dirname_def py_def)

text \<open>
  C4. Whenever \<open>main\<close> reports an accuracy, it is the number of pairs whose chosen score
  is strictly greater than the rejected score, divided by the number of pairs, the pairs
  being matched by index within each batch; for the chosen scores 0.9, 0.1 and the rejected
  scores 0.2, 0.8 it is 1/2. (The quotient is the exact one; Python rounds it to the nearest
  float, which for 1/2 is exact.)
\<close>

theorem accuracy_is_fraction_of_wins:
  assumes "main a batches = Inr w"
  shows "accuracy (snd (summary_file w))
       = real (length (filter (\<lambda>(chosen, rejected). chosen > rejected) (scored_pairs batches)))
           / real (length (scored_pairs batches))
     \<and> num_prompts (snd (summary_file w)) = length (scored_pairs batches)
     \<and> 0 < length (scored_pairs batches)"
proof -
  from assms obtain st where
    st: "run_inference batches \<lparr>results = [], scores_chosen = [], scores_rejected = []\<rparr> = Inr st"
      "results st \<noteq> []"
      "snd (summary_file w) =
       \<lparr>accuracy = real (sum_list (results st)) / real (length (results st)),
        num_prompts = length (results st), model = arg_model a,
        tokenizer = (case arg_tokenizer a of None \<Rightarrow> arg_model a
                     | Some t \<Rightarrow> if t = [] then arg_model a else t),
        chat_template = arg_chat_template a\<rparr>"
    by (rule main_Inr)
  from run_inference_results [OF st(1)] have
    r: "results st = map (\<lambda>(chosen, rejected). if chosen > rejected then 1 else 0)
          (scored_pairs batches)"
    by simp
  have "sum_list (results st)
      = length (filter (\<lambda>(chosen, rejected). chosen > rejected) (scored_pairs batches))"
    unfolding r by (rule sum_indicators)
  moreover have "length (results st) = length (scored_pairs batches)"
    unfolding r by simp
  moreover from st(2) have "scored_pairs batches \<noteq> []"
    unfolding r by simp
  ultimately show ?thesis
    using st(3) by simp
qed

theorem accuracy_is_fraction_of_wins_witness:
  "main example_args example_batches =
     Inr \<lparr>summary_file =
            (py ''results/'' @ py ''rm'' @ py ''.json'',
             \<lparr>accuracy = 1 / 2, num_prompts = 2, model = py ''rm'', tokenizer = py ''rm'',
              chat_template = None\<rparr>),
          all_file =
            Some (py ''results/'' @ py ''rm'' @ py ''_all.jsonl'',
              [\<lparr>chosen = [0.9, 0.1], rejected = [0.2, 0.8]\<rparr>,
               \<lparr>chosen = [0.9, 0.1], rejected = [0.2, 0.8]\<rparr>])\<rparr>
   \<and> scored_pairs example_batches = [(0.9, 0.2), (0.1, 0.8)]
   \<and> (1 / 2 :: real)
       = real (length (filter (\<lambda>(chosen, rejected). chosen > rejected)
                  (scored_pairs example_batches)))
           / real (length (scored_pairs example_batches))"
proof -
  have p: "scored_pairs example_batches = [(0.9, 0.2), (0.1, 0.8)]"
    by (simp add: scored_pairs_def example_batches_def)
  from accuracy_is_fraction_of_wins [OF example_main] example_main p show ?thesis
    by simp
qed

text \<open>
  C9. With no scored pair the run writes no file: on an empty dataset, and whenever the
  inference loop ends with no pair, \<open>sum(results) / len(results)\<close> raises
  \<open>ZeroDivisionError\<close> before any file is opened (a loop that itself raises writes no
  file either). An accuracy is reported only when at least one pair was scored.
\<close>

theorem no_pairs_is_division_by_zero:
  "main a ([] :: ('a::ord rewards \<times> 'a rewards) list) = Inl ZeroDivisionError
   \<and> (scored_pairs (batches :: ('a rewards \<times> 'a rewards) list) = [] \<longrightarrow>
        (\<exists>e. main a batches = Inl e)
        \<and> ((\<exists>st. run_inference batches
                   \<lparr>results = [], scores_chosen = [], scores_rejected = []\<rparr> = Inr st)
             \<longrightarrow> main a batches = Inl ZeroDivisionError))
   \<and> (\<forall>w. main a batches = Inr w \<longrightarrow>
        scored_pairs batches \<noteq> [] \<and> 0 < num_prompts (snd (summary_file w)))"
proof (intro conjI impI allI)
  show "main a ([] :: ('a rewards \<times> 'a rewards) list) = Inl ZeroDivisionError"
    by (simp add: main_def)
next
  assume none: "scored_pairs batches = []"
  show zero: "main a batches = Inl ZeroDivisionError"
    if "\<exists>st. run_inference batches
                   \<lparr>results = [], scores_chosen = [], scores_rejected = []\<rparr> = Inr st"
  proof -
    from that obtain st where st: "run_inference batches
        \<lparr>results = [], scores_chosen = [], scores_rejected = []\<rparr> = Inr st"
      by blast
    from run_inference_results [OF st] none have "results st = []"
      by simp
    with st show ?thesis
      by (simp add: main_def)
  qed
  show "\<exists>e. main a batches = Inl e"
  proof (cases "run_inference batches
        \<lparr>results = [], scores_chosen = [], scores_rejected = ([] :: 'a list)\<rparr>")
    case (Inl e)
    then show ?thesis by (simp add: main_def)
  next
    case (Inr st)
    then show ?thesis using zero by blast
  qed
next
  fix w
  assume w: "main a batches = Inr w"
  from main_counts [OF w]
  show "scored_pairs batches \<noteq> []" "0 < num_prompts (snd (summary_file w))"
    by auto
qed

theorem no_pairs_is_division_by_zero_witness:
  "scored_pairs [(ScoreDicts [1::real], ScoreDicts [])] = []
   \<and> (\<exists>st. run_inference [(ScoreDicts [1::real], ScoreDicts [])]
               \<lparr>results = [], scores_chosen = [], scores_rejected = []\<rparr> = Inr st)
   \<and> main example_args [(ScoreDicts [1::real], ScoreDicts [])] = Inl ZeroDivisionError
   \<and> (\<exists>w. main example_args example_batches = Inr w
         \<and> scored_pairs example_batches \<noteq> [] \<and> 0 < num_prompts (snd (summary_file w)))"
proof -
  have a: "scored_pairs [(ScoreDicts [1::real], ScoreDicts [])] = []"
    by (simp add: scored_pairs_def)
  have b: "\<exists>st. run_inference [(ScoreDicts [1::real], ScoreDicts [])]
               \<lparr>results = [], scores_chosen = [], scores_rejected = []\<rparr> = Inr st"
    by simp
  from a b no_pairs_is_division_by_zero [of example_args "[(ScoreDicts [1::real], ScoreDicts [])]"]
  have c: "main example_args [(ScoreDicts [1::real], ScoreDicts [])] = Inl ZeroDivisionError"
    by blast
  from no_pairs_is_division_by_zero [of example_args example_batches] example_main
  have "\<exists>w. main example_args example_batches = Inr w
         \<and> scored_pairs example_batches \<noteq> [] \<and> 0 < num_prompts (snd (summary_file w))"
    by blast
  with a b c show ?thesis
    by blast
qed

text \<open>
  With \<open>--save_all\<close> the second file has one line per pair, but every line holds the
  two whole score lists: the loop variables \<open>chosen\<close> and \<open>rejected\<close> are not used.
\<close>

lemma save_all_lines:
  assumes "main a batches = Inr w" and "arg_save_all a"
  shows "\<exists>path lines. all_file w = Some (path, lines)
     \<and> length lines = length (zip (concat (map (\<lambda>(rc, rr). scores_of rc) batches))
                                  (concat (map (\<lambda>(rc, rr). scores_of rr) batches)))
     \<and> (\<forall>l \<in> set lines.
           chosen l = concat (map (\<lambda>(rc, rr). scores_of rc) batches)
           \<and> rejected l = concat (map (\<lambda>(rc, rr). scores_of rr) batches))"
proof -
  from assms obtain st where
    st: "run_inference batches \<lparr>results = [], scores_chosen = [], scores_rejected = []\<rparr> = Inr st"
    and w: "all_file w = Some (arg_output_dir a @ arg_model a @ py ''_all.jsonl'',
         map (\<lambda>(chosen, rejected). \<lparr>chosen = scores_chosen st, rejected = scores_rejected st\<rparr>)
           (zip (scores_chosen st) (scores_rejected st)))"
    by (auto simp: main_def Let_def split: sum.splits if_splits)
  from run_inference_results [OF st] have
    "scores_chosen st = concat (map (\<lambda>(rc, rr). scores_of rc) batches)"
    "scores_rejected st = concat (map (\<lambda>(rc, rr). scores_of rr) batches)"
    by simp_all
  with w show ?thesis
    by auto
qed

text \<open>
  C5. On the two pairs of the example the second file is two equal lines, each with both
  chosen scores and both rejected scores, and not the line of pair 1 (0.9 and 0.2) followed
  by the line of pair 2 (0.1 and 0.8).
\<close>

theorem save_all_lines_repeat_all_scores:
  "(case main example_args example_batches of
      Inl e \<Rightarrow> None
    | Inr w \<Rightarrow> map_option snd (all_file w))
   = Some [\<lparr>chosen = [0.9, 0.1], rejected = [0.2, 0.8]\<rparr>,
           \<lparr>chosen = [0.9, 0.1], rejected = [0.2, 0.8]\<rparr>]"
  by (simp add: example_main)

end
